theory Spec2Isabelle
  imports Complex_Main "HOL-Library.Product_Lexorder"
begin

section \<open>Values of the Python program\<close>

text \<open>
  The program is \<^verbatim>\<open>bitcoin-new.py\<close>: a streaming accumulator \<^verbatim>\<open>DailyPriceStats\<close> with two
  subclasses, \<^verbatim>\<open>Schema1\<close> (trend) and \<^verbatim>\<open>Schema2\<close> (dispersion). A price is a finite Python
  float, modelled as the real number it denotes (the two zeros are one number); the results
  of float arithmetic and of the \<^verbatim>\<open>statistics\<close> functions are rounded to a double as
  CPython 3.11 rounds them, and a result of float arithmetic may be an infinity.
  A field that may hold \<^verbatim>\<open>None\<close> is an option. An exception is a value of \<open>pyerror\<close>.
\<close>

datatype pyerror = AttributeError | TypeError | OverflowError

text \<open>A rendered record is a Python dict with string keys, kept in insertion order.\<close>

datatype json = JNull | JBool bool | JStr string | JNum real

type_synonym pyrecord = "(string \<times> json) list"

definition and_then :: "pyerror + 'a \<Rightarrow> ('a \<Rightarrow> pyerror + 'b) \<Rightarrow> pyerror + 'b" where
  "and_then m f = (case m of Inl e \<Rightarrow> Inl e | Inr x \<Rightarrow> f x)"

subsection \<open>datetime\<close>

record datetime =
  year :: nat
  month :: nat
  day :: nat
  hour :: nat
  minute :: nat
  second :: nat
  microsecond :: nat

text \<open>Naive datetimes compare field by field, most significant first.\<close>

definition date_key :: "datetime \<Rightarrow> nat \<times> nat \<times> nat" where
  "date_key d = (year d, month d, day d)"

definition datetime_key :: "datetime \<Rightarrow> (nat \<times> nat \<times> nat) \<times> nat \<times> nat \<times> nat \<times> nat" where
  "datetime_key d = (date_key d, hour d, minute d, second d, microsecond d)"

fun digits :: "nat \<Rightarrow> string" where
  "digits n = (if n < 10 then [''0123456789'' ! n]
               else digits (n div 10) @ [''0123456789'' ! (n mod 10)])"

declare digits.simps [simp del]

definition zero_pad :: "nat \<Rightarrow> string \<Rightarrow> string" where
  "zero_pad w s = replicate (w - length s) CHR ''0'' @ s"

text \<open>\<^verbatim>\<open>strftime("%Y-%m-%dT%H:%M:%S")\<close>; the year is written without padding, as CPython
  on Linux prints it.\<close>

definition strftime_iso :: "datetime \<Rightarrow> string" where
  "strftime_iso d =
     digits (year d) @ ''-'' @ zero_pad 2 (digits (month d)) @ ''-'' @
     zero_pad 2 (digits (day d)) @ ''T'' @ zero_pad 2 (digits (hour d)) @ '':'' @
     zero_pad 2 (digits (minute d)) @ '':'' @ zero_pad 2 (digits (second d))"

text \<open>\<^verbatim>\<open>strftime("%A")\<close>: the weekday of the proleptic Gregorian ordinal, Monday first.\<close>

definition is_leap :: "nat \<Rightarrow> bool" where
  "is_leap y = (y mod 4 = 0 \<and> (y mod 100 \<noteq> 0 \<or> y mod 400 = 0))"

definition days_before_year :: "nat \<Rightarrow> nat" where
  "days_before_year y =
     (let p = y - 1 in p * 365 + p div 4 - p div 100 + p div 400)"

definition days_before_month :: "nat \<Rightarrow> nat \<Rightarrow> nat" where
  "days_before_month y m =
     [0, 0, 31, 59, 90, 120, 151, 181, 212, 243, 273, 304, 334] ! m +
     (if m > 2 \<and> is_leap y then 1 else 0)"

definition toordinal :: "datetime \<Rightarrow> nat" where
  "toordinal d = days_before_year (year d) + days_before_month (year d) (month d) + day d"

definition weekday :: "datetime \<Rightarrow> nat" where
  "weekday d = (toordinal d + 6) mod 7"

definition strftime_A :: "datetime \<Rightarrow> string" where
  "strftime_A d =
     [''Monday'', ''Tuesday'', ''Wednesday'', ''Thursday'', ''Friday'', ''Saturday'', ''Sunday'']
       ! weekday d"

subsection \<open>Floats\<close>

definition round_half_even :: "real \<Rightarrow> int" where
  "round_half_even r =
     (let f = \<lfloor>r\<rfloor>; d = r - of_int f
      in if d < 1 / 2 then f else if 1 / 2 < d then f + 1 else if even f then f else f + 1)"

text \<open>
  Rounding to the nearest double, ties to even: 53 significant bits, with the spacing of the
  subnormal numbers below \<open>2 ^ - 1022\<close>. \<open>double_ulp x\<close> is the spacing of the doubles
  around \<open>x\<close>.
\<close>

definition double_ulp :: "real \<Rightarrow> real" where
  "double_ulp x = 2 powr of_int (max \<lfloor>log 2 \<bar>x\<bar>\<rfloor> (- 1022) - 52)"

definition round_double :: "real \<Rightarrow> real" where
  "round_double x =
     (if x = 0 then 0 else of_int (round_half_even (x / double_ulp x)) * double_ulp x)"

text \<open>Turning an exact rational into a float (\<^verbatim>\<open>float(Fraction)\<close>, the true division of two
  integers) raises \<^verbatim>\<open>OverflowError\<close> when the rounded value is out of range.\<close>

definition to_double :: "real \<Rightarrow> pyerror + real" where
  "to_double x =
     (let y = round_double x in if 2 ^ 1024 \<le> \<bar>y\<bar> then Inl OverflowError else Inr y)"

text \<open>The float operators do not raise: a result out of range is an infinity.\<close>

datatype pyfloat = Finite real | PosInf | NegInf | NaN

definition to_float :: "real \<Rightarrow> pyfloat" where
  "to_float x =
     (let y = round_double x
      in if 2 ^ 1024 \<le> y then PosInf else if y \<le> - (2 ^ 1024) then NegInf else Finite y)"

fun float_sgn :: "pyfloat \<Rightarrow> real" where
  "float_sgn (Finite a) = sgn a"
| "float_sgn PosInf = 1"
| "float_sgn NegInf = - 1"
| "float_sgn NaN = 0"

fun float_mul :: "pyfloat \<Rightarrow> pyfloat \<Rightarrow> pyfloat" where
  "float_mul (Finite a) (Finite b) = to_float (a * b)"
| "float_mul NaN y = NaN"
| "float_mul x NaN = NaN"
| "float_mul x y =
     (let s = float_sgn x * float_sgn y
      in if 0 < s then PosInf else if s < 0 then NegInf else NaN)"

fun float_sub :: "pyfloat \<Rightarrow> pyfloat \<Rightarrow> pyfloat" where
  "float_sub (Finite a) (Finite b) = to_float (a - b)"
| "float_sub NaN y = NaN"
| "float_sub x NaN = NaN"
| "float_sub PosInf PosInf = NaN"
| "float_sub NegInf NegInf = NaN"
| "float_sub PosInf y = PosInf"
| "float_sub NegInf y = NegInf"
| "float_sub (Finite a) PosInf = NegInf"
| "float_sub (Finite a) NegInf = PosInf"

fun float_less :: "pyfloat \<Rightarrow> pyfloat \<Rightarrow> bool" where
  "float_less (Finite a) (Finite b) = (a < b)"
| "float_less NaN y = False"
| "float_less x NaN = False"
| "float_less x NegInf = False"
| "float_less PosInf y = False"
| "float_less NegInf y = True"
| "float_less (Finite a) PosInf = True"

text \<open>The truth value of a float: every float but zero is true.\<close>

fun float_bool :: "pyfloat \<Rightarrow> bool" where
  "float_bool (Finite a) = (a \<noteq> 0)"
| "float_bool x = True"

subsection \<open>Formatting a float with \<^verbatim>\<open>:0.2f\<close>\<close>

text \<open>The exact value is rounded to two decimals, ties to even; the sign is that of the value.\<close>

definition format_2f :: "real \<Rightarrow> string" where
  "format_2f x =
     (let n = nat (round_half_even (\<bar>x\<bar> * 100))
      in (if x < 0 then ''-'' else '''') @ digits (n div 100) @ ''.'' @ zero_pad 2 (digits (n mod 100)))"

fun float_format_2f :: "pyfloat \<Rightarrow> string" where
  "float_format_2f (Finite a) = format_2f a"
| "float_format_2f PosInf = ''inf''"
| "float_format_2f NegInf = ''-inf''"
| "float_format_2f NaN = ''nan''"

subsection \<open>The \<^verbatim>\<open>statistics\<close> module\<close>

text \<open>
  The module (as of CPython 3.11) works on the exact rational values of the floats and
  rounds once at the end: \<^verbatim>\<open>mean\<close> and \<^verbatim>\<open>variance\<close> convert the exact mean and the exact sample
  variance to a float, \<^verbatim>\<open>stdev\<close> returns the correctly rounded square root of the exact
  sample variance. The mean of floats lies between them, so its conversion cannot overflow;
  the other two conversions can.
\<close>

definition exact_mean :: "real list \<Rightarrow> real" where
  "exact_mean xs = sum_list xs / real (length xs)"

definition sample_variance :: "real list \<Rightarrow> real" where
  "sample_variance xs = (\<Sum>x\<leftarrow>xs. (x - exact_mean xs)\<^sup>2) / (real (length xs) - 1)"

definition mean :: "real list \<Rightarrow> real" where
  "mean xs = round_double (exact_mean xs)"

definition variance :: "real list \<Rightarrow> pyerror + real" where
  "variance xs = to_double (sample_variance xs)"

definition stdev :: "real list \<Rightarrow> pyerror + real" where
  "stdev xs = to_double (sqrt (sample_variance xs))"

section \<open>DailyPriceStats\<close>

record DailyPriceStats =
  curr_val :: "real option"
  curr_date :: "datetime option"
  prev_val :: "real option"
  prev_date :: "datetime option"
  prev_day_val :: "real option"

type_synonym PriceDateEntry = "datetime \<times> real"

definition new_day :: "'a DailyPriceStats_scheme \<Rightarrow> pyerror + bool" where
  "new_day self =
     (case prev_date self of
        None \<Rightarrow> Inr True
      | Some pd \<Rightarrow>
          (case curr_date self of
             None \<Rightarrow> Inl AttributeError
           | Some cd \<Rightarrow> Inr (day pd \<noteq> day cd)))"

text \<open>
  \<open>act\<close> is a generator. Its model returns the records yielded so far together with
  either the exception that ended the iteration or the state after the last yield.
  The three hooks are the methods a subclass overrides: \<open>output_format\<close> (which may
  raise and may mutate), \<open>hourly_update\<close> and \<open>post_daily_update\<close>.
\<close>

definition act_step ::
  "('a DailyPriceStats_scheme \<Rightarrow> pyerror + pyrecord \<times> 'a DailyPriceStats_scheme) \<Rightarrow>
   ('a DailyPriceStats_scheme \<Rightarrow> 'a DailyPriceStats_scheme) \<Rightarrow>
   ('a DailyPriceStats_scheme \<Rightarrow> 'a DailyPriceStats_scheme) \<Rightarrow>
   'a DailyPriceStats_scheme \<Rightarrow> PriceDateEntry \<Rightarrow>
   pyrecord list \<times> (pyerror + 'a DailyPriceStats_scheme)" where
  "act_step output_format hourly_update post_daily_update self line =
     (let self = self\<lparr>curr_date := Some (fst line), curr_val := Some (snd line)\<rparr> in
      case new_day self of
        Inl e \<Rightarrow> ([], Inl e)
      | Inr nd \<Rightarrow>
          (case (if nd then
                   (case output_format self of
                      Inl e \<Rightarrow> Inl e
                    | Inr (r, self) \<Rightarrow>
                        (let self = post_daily_update self
                         in Inr ([r], self\<lparr>prev_day_val := curr_val self\<rparr>)))
                 else Inr ([], self)) of
             Inl e \<Rightarrow> ([], Inl e)
           | Inr (rs, self) \<Rightarrow>
               (let self = hourly_update self
                in (rs, Inr (self\<lparr>prev_date := curr_date self, prev_val := curr_val self\<rparr>)))))"

fun act_loop ::
  "('a DailyPriceStats_scheme \<Rightarrow> pyerror + pyrecord \<times> 'a DailyPriceStats_scheme) \<Rightarrow>
   ('a DailyPriceStats_scheme \<Rightarrow> 'a DailyPriceStats_scheme) \<Rightarrow>
   ('a DailyPriceStats_scheme \<Rightarrow> 'a DailyPriceStats_scheme) \<Rightarrow>
   'a DailyPriceStats_scheme \<Rightarrow> PriceDateEntry list \<Rightarrow>
   pyrecord list \<times> (pyerror + 'a DailyPriceStats_scheme)" where
  "act_loop output_format hourly_update post_daily_update self [] = ([], Inr self)"
| "act_loop output_format hourly_update post_daily_update self (line # data) =
     (case act_step output_format hourly_update post_daily_update self line of
        (rs, Inl e) \<Rightarrow> (rs, Inl e)
      | (rs, Inr self) \<Rightarrow>
          (case act_loop output_format hourly_update post_daily_update self data of
             (rs', res) \<Rightarrow> (rs @ rs', res)))"

definition act ::
  "('a DailyPriceStats_scheme \<Rightarrow> pyerror + pyrecord \<times> 'a DailyPriceStats_scheme) \<Rightarrow>
   ('a DailyPriceStats_scheme \<Rightarrow> 'a DailyPriceStats_scheme) \<Rightarrow>
   ('a DailyPriceStats_scheme \<Rightarrow> 'a DailyPriceStats_scheme) \<Rightarrow>
   'a DailyPriceStats_scheme \<Rightarrow> PriceDateEntry list \<Rightarrow>
   pyrecord list \<times> (pyerror + 'a DailyPriceStats_scheme)" where
  "act output_format hourly_update post_daily_update self data =
     (case act_loop output_format hourly_update post_daily_update self data of
        (rs, Inl e) \<Rightarrow> (rs, Inl e)
      | (rs, Inr self) \<Rightarrow>
          (case output_format (hourly_update self) of
             Inl e \<Rightarrow> (rs, Inl e)
           | Inr (r, self) \<Rightarrow> (rs @ [r], Inr self)))"

text \<open>The base class leaves both update hooks empty.\<close>

definition hourly_update :: "'a DailyPriceStats_scheme \<Rightarrow> 'a DailyPriceStats_scheme" where
  "hourly_update self = self"

definition post_daily_update :: "'a DailyPriceStats_scheme \<Rightarrow> 'a DailyPriceStats_scheme" where
  "post_daily_update self = self"

section \<open>Schema1\<close>

record Schema1 = DailyPriceStats +
  min_val :: "real option"
  max_val :: "real option"

definition Schema1_init :: Schema1 where
  "Schema1_init = \<lparr>curr_val = None, curr_date = None, prev_val = None, prev_date = None,
     prev_day_val = None, min_val = None, max_val = None\<rparr>"

definition day_of_week :: "Schema1 \<Rightarrow> pyerror + string" where
  "day_of_week self =
     (case curr_date self of None \<Rightarrow> Inl AttributeError | Some d \<Rightarrow> Inr (strftime_A d))"

text \<open>The difference of two prices is a float subtraction: it is rounded, and beyond the range
  of the doubles it is an infinity.\<close>

definition change :: "Schema1 \<Rightarrow> pyerror + pyfloat option" where
  "change self =
     (case prev_day_val self of
        None \<Rightarrow> Inr None
      | Some pdv \<Rightarrow>
          (case curr_val self of
             None \<Rightarrow> Inl TypeError
           | Some cv \<Rightarrow> Inr (Some (float_sub (Finite cv) (Finite pdv)))))"

definition direction :: "Schema1 \<Rightarrow> pyerror + string option" where
  "direction self =
     and_then (change self) (\<lambda>c.
       case c of
         None \<Rightarrow> Inr None
       | Some c \<Rightarrow>
           Inr (Some (if float_less (Finite 0) c then ''up''
                      else if float_less c (Finite 0) then ''down'' else ''same'')))"

definition high_since_start :: "Schema1 \<Rightarrow> pyerror + bool option \<times> Schema1" where
  "high_since_start self =
     (case max_val self of
        None \<Rightarrow> Inr (None, self\<lparr>max_val := curr_val self\<rparr>)
      | Some m \<Rightarrow>
          (case curr_val self of
             None \<Rightarrow> Inl TypeError
           | Some cv \<Rightarrow>
               if cv > m then Inr (Some True, self\<lparr>max_val := Some cv\<rparr>)
               else Inr (Some False, self)))"

definition low_since_start :: "Schema1 \<Rightarrow> pyerror + bool option \<times> Schema1" where
  "low_since_start self =
     (case min_val self of
        None \<Rightarrow> Inr (None, self\<lparr>min_val := curr_val self\<rparr>)
      | Some m \<Rightarrow>
          (case curr_val self of
             None \<Rightarrow> Inl TypeError
           | Some cv \<Rightarrow>
               if cv < m then Inr (Some True, self\<lparr>min_val := Some cv\<rparr>)
               else Inr (Some False, self)))"

definition json_opt :: "('a \<Rightarrow> json) \<Rightarrow> 'a option \<Rightarrow> json" where
  "json_opt f v = (case v of None \<Rightarrow> JNull | Some x \<Rightarrow> f x)"

text \<open>The dict display evaluates its values in the order written. The key \<^verbatim>\<open>change\<close> is
  guarded by the truth value of \<^verbatim>\<open>self.change\<close>, which is false for \<^verbatim>\<open>None\<close> and for zero.\<close>

definition Schema1_output_format :: "Schema1 \<Rightarrow> pyerror + pyrecord \<times> Schema1" where
  "Schema1_output_format self =
     and_then (case curr_date self of None \<Rightarrow> Inl AttributeError | Some d \<Rightarrow> Inr (strftime_iso d)) (\<lambda>date.
     and_then (case curr_val self of None \<Rightarrow> Inl TypeError | Some v \<Rightarrow> Inr (format_2f v)) (\<lambda>price.
     and_then (direction self) (\<lambda>dir.
     and_then (change self) (\<lambda>c.
     and_then (Inr (case c of
                      None \<Rightarrow> JNull
                    | Some x \<Rightarrow> if float_bool x then JStr (float_format_2f x) else JNull)) (\<lambda>chg.
     and_then (day_of_week self) (\<lambda>dow.
     and_then (high_since_start self) (\<lambda>(high, self).
     and_then (low_since_start self) (\<lambda>(low, self).
       Inr ([(''date'', JStr date),
             (''price'', JStr price),
             (''direction'', json_opt JStr dir),
             (''change'', chg),
             (''dayOfWeek'', JStr dow),
             (''highSinceStart'', json_opt JBool high),
             (''lowSinceStart'', json_opt JBool low)], self)))))))))"

definition Schema1_act :: "PriceDateEntry list \<Rightarrow> pyrecord list \<times> (pyerror + Schema1)" where
  "Schema1_act data = act Schema1_output_format hourly_update post_daily_update Schema1_init data"

section \<open>Schema2\<close>

record Schema2 = DailyPriceStats +
  vals :: "real option list"

definition Schema2_init :: Schema2 where
  "Schema2_init = \<lparr>curr_val = None, curr_date = None, prev_val = None, prev_date = None,
     prev_day_val = None, vals = []\<rparr>"

text \<open>A \<^verbatim>\<open>None\<close> among the values makes the \<^verbatim>\<open>statistics\<close> functions raise \<^verbatim>\<open>TypeError\<close>.\<close>

definition floats :: "real option list \<Rightarrow> pyerror + real list" where
  "floats vs = (case those vs of None \<Rightarrow> Inl TypeError | Some xs \<Rightarrow> Inr xs)"

definition daily_average :: "Schema2 \<Rightarrow> pyerror + real option" where
  "daily_average self =
     (if length (vals self) < 1 then Inr (curr_val self)
      else and_then (floats (vals self)) (\<lambda>xs. Inr (Some (mean xs))))"

definition daily_variance :: "Schema2 \<Rightarrow> pyerror + real" where
  "daily_variance self =
     (if length (vals self) < 2 then Inr 0
      else and_then (floats (vals self)) (\<lambda>xs. variance xs))"

fun volatility_loop :: "real option list \<Rightarrow> nat list \<Rightarrow> pyerror + bool" where
  "volatility_loop vs [] = Inr False"
| "volatility_loop vs (i # is) =
     (let selected_vals = take i vs in
      if length selected_vals < 2 then volatility_loop vs is
      else and_then (floats selected_vals) (\<lambda>xs.
        and_then (stdev xs) (\<lambda>std_dev.
        let new_mean = mean xs in
        if float_less (float_mul (float_mul (Finite (- 1)) (Finite std_dev)) (Finite 2))
             (float_sub (Finite (last xs)) (Finite new_mean)) \<and>
           float_less (float_sub (Finite (last xs)) (Finite new_mean))
             (float_mul (Finite std_dev) (Finite 2))
        then Inr True
        else volatility_loop vs is)))"

definition volatility_alert :: "Schema2 \<Rightarrow> pyerror + bool" where
  "volatility_alert self = volatility_loop (vals self) [0 ..< length (vals self)]"

definition Schema2_hourly_update :: "Schema2 \<Rightarrow> Schema2" where
  "Schema2_hourly_update self = hourly_update (self\<lparr>vals := vals self @ [curr_val self]\<rparr>)"

definition Schema2_post_daily_update :: "Schema2 \<Rightarrow> Schema2" where
  "Schema2_post_daily_update self = post_daily_update (self\<lparr>vals := []\<rparr>)"

definition Schema2_output_format :: "Schema2 \<Rightarrow> pyerror + pyrecord \<times> Schema2" where
  "Schema2_output_format self =
     and_then (case curr_date self of None \<Rightarrow> Inl AttributeError | Some d \<Rightarrow> Inr (strftime_iso d)) (\<lambda>date.
     and_then (case curr_val self of None \<Rightarrow> Inl TypeError | Some v \<Rightarrow> Inr (format_2f v)) (\<lambda>price.
     and_then (daily_average self) (\<lambda>avg.
     and_then (daily_variance self) (\<lambda>var.
     and_then (volatility_alert self) (\<lambda>alert.
       Inr ([(''date'', JStr date),
             (''price'', JStr price),
             (''dailyAverage'', json_opt JNum avg),
             (''dailyVariance'', JNum var),
             (''volatilityalert'', JBool alert)], self))))))"

definition Schema2_act :: "PriceDateEntry list \<Rightarrow> pyrecord list \<times> (pyerror + Schema2)" where
  "Schema2_act data =
     act Schema2_output_format Schema2_hourly_update Schema2_post_daily_update Schema2_init data"

section \<open>Vocabulary of the properties\<close>

text \<open>The day boundary as \<open>new_day\<close> decides it once the current sample is set: there is no
  previous sample, or its day of the month differs from the current one's.\<close>

definition is_boundary :: "datetime option \<Rightarrow> datetime \<Rightarrow> bool" where
  "is_boundary p d = (case p of None \<Rightarrow> True | Some q \<Rightarrow> day q \<noteq> day d)"

fun crossings :: "datetime option \<Rightarrow> datetime list \<Rightarrow> nat" where
  "crossings p [] = 0"
| "crossings p (d # ds) = (if is_boundary p d then 1 else 0) + crossings (Some d) ds"

text \<open>What one iteration of the loop leaves behind, and what the whole loop does.\<close>

definition step_post ::
  "'a DailyPriceStats_scheme \<Rightarrow> PriceDateEntry \<Rightarrow> pyrecord list \<Rightarrow> 'a DailyPriceStats_scheme \<Rightarrow> bool" where
  "step_post st line rs st' =
     (length rs = (if is_boundary (prev_date st) (fst line) then 1 else 0) \<and>
      curr_date st' = Some (fst line) \<and> curr_val st' = Some (snd line) \<and>
      prev_date st' = Some (fst line) \<and> prev_val st' = Some (snd line) \<and>
      prev_day_val st' = (if is_boundary (prev_date st) (fst line) then Some (snd line) else prev_day_val st))"

definition loop_post ::
  "'a DailyPriceStats_scheme \<Rightarrow> PriceDateEntry list \<Rightarrow> pyrecord list \<Rightarrow> 'a DailyPriceStats_scheme \<Rightarrow> bool" where
  "loop_post st data rs st' =
     (length rs = crossings (prev_date st) (map fst data) \<and>
      (if data = [] then st' = st
       else curr_date st' = Some (fst (last data)) \<and> curr_val st' = Some (snd (last data)) \<and>
            prev_date st' = Some (fst (last data)) \<and> prev_val st' = Some (snd (last data)) \<and>
            (prev_day_val st' \<noteq> None \<or> (prev_date st \<noteq> None \<and> prev_day_val st = None))))"

text \<open>Python orders naive datetimes by their fields; an input is ascending when it is sorted
  in that order. The calendar days of an input are its distinct dates.\<close>

definition ascending :: "PriceDateEntry list \<Rightarrow> bool" where
  "ascending data = sorted (map (\<lambda>line. datetime_key (fst line)) data)"

definition calendar_days :: "PriceDateEntry list \<Rightarrow> nat" where
  "calendar_days data = card (set (map (\<lambda>line. date_key (fst line)) data))"

text \<open>Consecutive samples on different dates also differ in their day of the month (true of
  any two samples less than four weeks apart).\<close>

fun day_number_tells :: "datetime list \<Rightarrow> bool" where
  "day_number_tells (a # b # ds) =
     ((date_key a = date_key b \<or> day a \<noteq> day b) \<and> day_number_tells (b # ds))"
| "day_number_tells ds = True"

text \<open>Sample timestamps used in the examples.\<close>

definition jan15_09 :: datetime where
  "jan15_09 = \<lparr>year = 2021, month = 1, day = 15, hour = 9, minute = 0, second = 0, microsecond = 0\<rparr>"

definition jan15_10 :: datetime where
  "jan15_10 = \<lparr>year = 2021, month = 1, day = 15, hour = 10, minute = 0, second = 0, microsecond = 0\<rparr>"

definition jan16_09 :: datetime where
  "jan16_09 = \<lparr>year = 2021, month = 1, day = 16, hour = 9, minute = 0, second = 0, microsecond = 0\<rparr>"

definition feb15_09 :: datetime where
  "feb15_09 = \<lparr>year = 2021, month = 2, day = 15, hour = 9, minute = 0, second = 0, microsecond = 0\<rparr>"

text \<open>What \<open>volatility_alert\<close> does with one selected prefix: \<^verbatim>\<open>statistics.stdev\<close> may raise;
  otherwise the last element of the prefix is tested against the prefix's mean.\<close>

definition prefix_outcome :: "real list \<Rightarrow> pyerror + bool" where
  "prefix_outcome selected_vals =
     and_then (stdev selected_vals) (\<lambda>std_dev.
       let new_mean = mean selected_vals in
       Inr (float_less (float_mul (float_mul (Finite (- 1)) (Finite std_dev)) (Finite 2))
              (float_sub (Finite (last selected_vals)) (Finite new_mean)) \<and>
            float_less (float_sub (Finite (last selected_vals)) (Finite new_mean))
              (float_mul (Finite std_dev) (Finite 2))))"

text \<open>The volatility alert as the specification words it: prefix lengths from 0 up to the
  length of the list, prefixes shorter than two skipped, and the last element of the whole
  list compared with the prefix's mean and standard deviation (the mathematical ones).\<close>

definition spec_volatility_alert :: "real list \<Rightarrow> bool" where
  "spec_volatility_alert xs =
     list_ex (\<lambda>i. let p = take i xs in
                2 \<le> length p \<and> \<bar>last xs - exact_mean p\<bar> < 2 * sqrt (sample_variance p))
       [0 ..< Suc (length xs)]"

text \<open>Prices of at most \<open>2 ^ 500\<close> in magnitude keep the statistics within the range of the
  doubles.\<close>

definition price_bound :: real where
  "price_bound = 2 ^ 500"

definition bounded_prices :: "PriceDateEntry list \<Rightarrow> bool" where
  "bounded_prices data = list_all (\<lambda>line. \<bar>snd line\<bar> \<le> price_bound) data"

text \<open>The state of Schema2 between iterations: every collected value is a float, and once a
  sample has been processed the list ends with the current price.\<close>

definition Schema2_inv :: "Schema2 \<Rightarrow> bool" where
  "Schema2_inv st =
     (None \<notin> set (vals st) \<and>
      (prev_date st = None \<or> (vals st \<noteq> [] \<and> last (vals st) = curr_val st)))"

definition Schema2_bounded :: "Schema2 \<Rightarrow> bool" where
  "Schema2_bounded st = (Schema2_inv st \<and> list_all (\<lambda>v. \<bar>the v\<bar> \<le> price_bound) (vals st))"

section \<open>Rounding to a double\<close>

lemma round_half_even_of_int: "round_half_even (of_int k) = k"
  by (simp add: round_half_even_def)

lemma round_half_even_close: "\<bar>of_int (round_half_even r) - r\<bar> \<le> 1 / 2"
proof -
  have "of_int \<lfloor>r\<rfloor> \<le> r" "r < of_int \<lfloor>r\<rfloor> + 1" by linarith+
  then show ?thesis
    by (auto simp: round_half_even_def Let_def)
qed

lemma double_ulp_pos: "0 < double_ulp x"
  by (simp add: double_ulp_def)

lemma double_ulp_le: "x \<noteq> 0 \<Longrightarrow> double_ulp x \<le> max \<bar>x\<bar> 1"
proof -
  assume x: "x \<noteq> 0"
  show ?thesis
  proof (cases "- 1022 \<le> \<lfloor>log 2 \<bar>x\<bar>\<rfloor>")
    case True
    then have "max \<lfloor>log 2 \<bar>x\<bar>\<rfloor> (- 1022) = \<lfloor>log 2 \<bar>x\<bar>\<rfloor>"
      by (rule max_absorb1)
    then have "double_ulp x = 2 powr (of_int \<lfloor>log 2 \<bar>x\<bar>\<rfloor> - 52)"
      by (simp only: double_ulp_def of_int_diff of_int_numeral)
    also have "\<dots> \<le> 2 powr (log 2 \<bar>x\<bar>)"
      by (rule powr_mono) (simp_all, linarith)
    also have "\<dots> = \<bar>x\<bar>" using x by simp
    finally show ?thesis by simp
  next
    case False
    then have "max \<lfloor>log 2 \<bar>x\<bar>\<rfloor> (- 1022) = - 1022"
      by (intro max_absorb2) simp
    then have "double_ulp x = 2 powr (- 1074)"
      by (simp only: double_ulp_def) simp
    also have "\<dots> \<le> 2 powr 0" by (rule powr_mono) simp_all
    finally show ?thesis by simp
  qed
qed

lemma round_double_close: "\<bar>round_double x - x\<bar> \<le> double_ulp x / 2"
proof (cases "x = 0")
  case True
  then show ?thesis using double_ulp_pos [of x] by (simp add: round_double_def)
next
  case False
  let ?u = "double_ulp x"
  have u: "0 < ?u" by (rule double_ulp_pos)
  have "round_double x - x = (of_int (round_half_even (x / ?u)) - x / ?u) * ?u"
    using False u by (simp add: round_double_def field_simps)
  then have "\<bar>round_double x - x\<bar> = \<bar>of_int (round_half_even (x / ?u)) - x / ?u\<bar> * ?u"
    using u by (simp add: abs_mult)
  also have "\<dots> \<le> 1 / 2 * ?u"
    using u round_half_even_close [of "x / ?u"] by (intro mult_right_mono) simp_all
  finally show ?thesis by simp
qed

lemma round_double_bound: "\<bar>round_double x\<bar> \<le> \<bar>x\<bar> + max \<bar>x\<bar> 1 / 2"
proof (cases "x = 0")
  case True
  then show ?thesis by (simp add: round_double_def)
next
  case False
  from round_double_close [of x] double_ulp_le [OF False]
  show ?thesis by linarith
qed

lemma round_double_lower: "1 \<le> x \<Longrightarrow> x / 2 \<le> round_double x"
proof -
  assume x: "1 \<le> x"
  then have "x \<noteq> 0" by simp
  from double_ulp_le [OF this] x have "double_ulp x \<le> x" by simp
  moreover have "x - round_double x \<le> \<bar>round_double x - x\<bar>" by simp
  ultimately show ?thesis using round_double_close [of x] by linarith
qed

lemma round_double_of_int:
  assumes "\<bar>n\<bar> < 2 ^ 53"
  shows "round_double (of_int n) = of_int n"
proof (cases "n = 0")
  case True
  then show ?thesis by (simp add: round_double_def)
next
  case False
  define e where "e = \<lfloor>log 2 \<bar>of_int n :: real\<bar>\<rfloor>"
  have n1: "1 \<le> \<bar>of_int n :: real\<bar>" using False by (simp flip: of_int_abs)
  have n2: "\<bar>of_int n :: real\<bar> < 2 ^ 53"
    using assms by (metis of_int_abs of_int_less_numeral_power_cancel_iff)
  have "0 \<le> log 2 \<bar>of_int n :: real\<bar>" using n1 by simp
  then have e0: "0 \<le> e" by (simp add: e_def)
  have "log 2 \<bar>of_int n :: real\<bar> < log 2 (2 ^ 53)"
    using n1 n2 by (subst log_less_cancel_iff) simp_all
  also have "log 2 ((2::real) ^ 53) = 53"
    by (subst log_nat_power) simp_all
  finally have "log 2 \<bar>of_int n :: real\<bar> < 53" .
  then have e1: "e \<le> 52" unfolding e_def by linarith
  define k where "k = nat (52 - e)"
  have ulp: "double_ulp (of_int n) = 1 / 2 ^ k"
  proof -
    have "double_ulp (of_int n) = 2 powr (- real k)"
      using e0 e1 by (simp add: double_ulp_def e_def [symmetric] max_def k_def)
    also have "\<dots> = 1 / 2 ^ k"
      by (simp add: powr_minus powr_realpow inverse_eq_divide)
    finally show ?thesis .
  qed
  have "of_int n / double_ulp (of_int n) = (of_int (n * 2 ^ k) :: real)"
    by (simp add: ulp)
  then have "round_half_even (of_int n / double_ulp (of_int n)) = n * 2 ^ k"
    by (simp only: round_half_even_of_int)
  then show ?thesis
    using False by (simp add: round_double_def ulp)
qed

lemma round_double_numeral:
  "numeral k < (2 :: int) ^ 53 \<Longrightarrow> round_double (numeral k) = numeral k"
  using round_double_of_int [of "numeral k"] by simp

lemma round_double_neg_numeral:
  "numeral k < (2 :: int) ^ 53 \<Longrightarrow> round_double (- numeral k) = - numeral k"
  using round_double_of_int [of "- numeral k"] by simp

lemma round_double_0 [simp]: "round_double 0 = 0"
  by (simp add: round_double_def)

lemma round_double_1 [simp]: "round_double 1 = 1"
  using round_double_of_int [of 1] by simp

section \<open>The statistics functions\<close>

lemma those_map_Some: "those (map Some xs) = Some xs"
  by (induction xs) simp_all

lemma floats_map_Some: "floats (map Some xs) = Inr xs"
  by (simp add: floats_def those_map_Some)

lemma to_double_cases: "to_double x = Inl OverflowError \<or> to_double x = Inr (round_double x)"
  by (simp add: to_double_def Let_def)

lemma to_double_ok:
  assumes "\<bar>x\<bar> \<le> 2 ^ 1022"
  shows "to_double x = Inr (round_double x)"
proof -
  have "(1::real) \<le> 2 ^ 1022" by (rule one_le_power) simp
  with assms have "max \<bar>x\<bar> 1 \<le> 2 ^ 1022" by simp
  with round_double_bound [of x] assms have "\<bar>round_double x\<bar> \<le> 2 ^ 1022 + 2 ^ 1022 / 2"
    by linarith
  also have "\<dots> < (2::real) ^ 1024" by simp
  finally show ?thesis by (simp add: to_double_def Let_def)
qed

lemma sum_list_abs_bound:
  fixes xs :: "real list"
  assumes "\<forall>x \<in> set xs. \<bar>x\<bar> \<le> B"
  shows "\<bar>sum_list xs\<bar> \<le> real (length xs) * B"
proof -
  have "\<bar>sum_list xs\<bar> \<le> (\<Sum>x\<leftarrow>xs. \<bar>x\<bar>)" by (rule sum_list_abs)
  also have "\<dots> \<le> (\<Sum>x\<leftarrow>xs. B)" using assms by (intro sum_list_mono) simp
  also have "\<dots> = real (length xs) * B" by (simp add: sum_list_triv)
  finally show ?thesis .
qed

lemma exact_mean_bound:
  assumes "\<forall>x \<in> set xs. \<bar>x\<bar> \<le> B" and "xs \<noteq> []"
  shows "\<bar>exact_mean xs\<bar> \<le> B"
proof -
  have n: "0 < real (length xs)" using assms(2) by simp
  have "\<bar>exact_mean xs\<bar> = \<bar>sum_list xs\<bar> / real (length xs)"
    by (simp add: exact_mean_def)
  also have "\<dots> \<le> (real (length xs) * B) / real (length xs)"
    using sum_list_abs_bound [OF assms(1)] n by (intro divide_right_mono) simp_all
  also have "\<dots> = B" using n by simp
  finally show ?thesis .
qed

lemma sample_variance_nonneg: "2 \<le> length xs \<Longrightarrow> 0 \<le> sample_variance xs"
proof -
  assume "2 \<le> length xs"
  then have "0 < real (length xs) - 1" by simp
  moreover have "0 \<le> (\<Sum>x\<leftarrow>xs. (x - exact_mean xs)\<^sup>2)"
    by (rule sum_list_nonneg) auto
  ultimately show ?thesis by (simp add: sample_variance_def)
qed

lemma sample_variance_bound:
  assumes b: "\<forall>x \<in> set xs. \<bar>x\<bar> \<le> B" and l: "2 \<le> length xs"
  shows "sample_variance xs \<le> 8 * B\<^sup>2"
proof -
  from l have ne: "xs \<noteq> []" by auto
  have m: "\<bar>exact_mean xs\<bar> \<le> B" using b ne by (rule exact_mean_bound)
  have B0: "0 \<le> B" using m by linarith
  have sq: "(x - exact_mean xs)\<^sup>2 \<le> 4 * B\<^sup>2" if "x \<in> set xs" for x
  proof -
    have "\<bar>x - exact_mean xs\<bar> \<le> 2 * B" using b that m by (auto simp: abs_le_iff)
    then have "\<bar>x - exact_mean xs\<bar>\<^sup>2 \<le> (2 * B)\<^sup>2"
      by (intro power_mono) simp_all
    then show ?thesis by (simp add: power_mult_distrib)
  qed
  have "(\<Sum>x\<leftarrow>xs. (x - exact_mean xs)\<^sup>2) \<le> (\<Sum>x\<leftarrow>xs. 4 * B\<^sup>2)"
    using sq by (intro sum_list_mono)
  also have "\<dots> = real (length xs) * (4 * B\<^sup>2)" by (simp add: sum_list_triv)
  finally have s: "(\<Sum>x\<leftarrow>xs. (x - exact_mean xs)\<^sup>2) \<le> real (length xs) * (4 * B\<^sup>2)" .
  have d: "0 < real (length xs) - 1" using l by simp
  have "real (length xs) \<le> 2 * (real (length xs) - 1)" using l by simp
  then have "real (length xs) * (4 * B\<^sup>2) \<le> (2 * (real (length xs) - 1)) * (4 * B\<^sup>2)"
    by (intro mult_right_mono) simp_all
  with s have "(\<Sum>x\<leftarrow>xs. (x - exact_mean xs)\<^sup>2) \<le> (8 * B\<^sup>2) * (real (length xs) - 1)"
    by (simp add: algebra_simps)
  then show ?thesis
    using d by (simp add: sample_variance_def pos_divide_le_eq)
qed

lemma sqrt_le_max: "0 \<le> v \<Longrightarrow> sqrt v \<le> max v 1"
proof (cases "1 \<le> v")
  case True
  assume "0 \<le> v"
  have "sqrt v \<le> sqrt (v * v)"
    using True by (intro real_sqrt_le_mono) (simp add: mult_le_cancel_left1)
  also have "\<dots> = v" using True by simp
  finally show ?thesis by simp
next
  case False
  assume "0 \<le> v"
  have "sqrt v \<le> sqrt 1" using False by (intro real_sqrt_le_mono) simp
  then show ?thesis by simp
qed

lemma bounded_statistics:
  assumes b: "\<forall>x \<in> set xs. \<bar>x\<bar> \<le> price_bound" and l: "2 \<le> length xs"
  shows "variance xs = Inr (round_double (sample_variance xs))"
    and "stdev xs = Inr (round_double (sqrt (sample_variance xs)))"
proof -
  have v0: "0 \<le> sample_variance xs" using l by (rule sample_variance_nonneg)
  have "sample_variance xs \<le> 8 * price_bound\<^sup>2" using b l by (rule sample_variance_bound)
  also have "8 * price_bound\<^sup>2 = 2 ^ 1003"
    by (simp add: price_bound_def power2_eq_square flip: power_add)
  finally have v1: "sample_variance xs \<le> 2 ^ 1003" .
  have "(2::real) ^ 1003 \<le> 2 ^ 1022" by (rule power_increasing) simp_all
  with v1 have v2: "sample_variance xs \<le> 2 ^ 1022" by linarith
  have one: "(1::real) \<le> 2 ^ 1022" by (rule one_le_power) simp
  show "variance xs = Inr (round_double (sample_variance xs))"
    unfolding variance_def using v0 v2 by (intro to_double_ok) simp
  have "sqrt (sample_variance xs) \<le> max (sample_variance xs) 1" using v0 by (rule sqrt_le_max)
  also have "\<dots> \<le> 2 ^ 1022" using v2 one by simp
  finally have "\<bar>sqrt (sample_variance xs)\<bar> \<le> 2 ^ 1022" using v0 by simp
  then show "stdev xs = Inr (round_double (sqrt (sample_variance xs)))"
    unfolding stdev_def by (rule to_double_ok)
qed

lemma to_double_0 [simp]: "to_double 0 = Inr 0"
  by (simp add: to_double_def)

lemma to_float_ok:
  assumes "\<bar>x\<bar> \<le> 2 ^ 1022"
  shows "to_float x = Finite (round_double x)"
proof -
  have "(1::real) \<le> 2 ^ 1022" by (rule one_le_power) simp
  with assms have "max \<bar>x\<bar> 1 \<le> 2 ^ 1022" by simp
  with round_double_bound [of x] assms have "\<bar>round_double x\<bar> \<le> 2 ^ 1022 + 2 ^ 1022 / 2"
    by linarith
  also have "\<dots> < (2::real) ^ 1024" by simp
  finally have "\<bar>round_double x\<bar> < 2 ^ 1024" .
  then have "\<not> 2 ^ 1024 \<le> round_double x" "\<not> round_double x \<le> - (2 ^ 1024)"
    by linarith+
  then show ?thesis by (simp only: to_float_def Let_def if_False)
qed

lemma to_float_0 [simp]: "to_float 0 = Finite 0"
  by (simp add: to_float_def)

text \<open>The two-sided test of the specification against twice the deviation, without the square root.\<close>

lemma abs_less_two_sqrt_iff: "\<bar>d\<bar> < 2 * sqrt v \<longleftrightarrow> d\<^sup>2 < 4 * v"
proof -
  have "\<bar>d\<bar> < 2 * sqrt v \<longleftrightarrow> sqrt (d\<^sup>2) < sqrt (4 * v)"
    by (simp add: real_sqrt_mult)
  also have "\<dots> \<longleftrightarrow> d\<^sup>2 < 4 * v"
    by (rule real_sqrt_less_iff)
  finally show ?thesis .
qed

section \<open>The loop of act\<close>

lemma new_day_current:
  "new_day (st\<lparr>curr_date := Some d, curr_val := v\<rparr>) = Inr (is_boundary (prev_date st) d)"
  by (simp add: new_day_def is_boundary_def split: option.splits)

lemma act_loop_append:
  "act_loop f hu pdu st (xs @ ys) =
     (case act_loop f hu pdu st xs of
        (rs, Inl e) \<Rightarrow> (rs, Inl e)
      | (rs, Inr st') \<Rightarrow> (case act_loop f hu pdu st' ys of (rs', res) \<Rightarrow> (rs @ rs', res)))"
proof (induction xs arbitrary: st)
  case Nil
  show ?case by (simp split: prod.splits)
next
  case (Cons x xs)
  show ?case
    by (simp add: Cons.IH split: prod.splits sum.splits)
qed

lemma loop_post_Cons:
  assumes "step_post st line rs1 st1" and "loop_post st1 data rs2 st2"
  shows "loop_post st (line # data) (rs1 @ rs2) st2"
  using assms
  by (auto simp: step_post_def loop_post_def is_boundary_def split: if_splits option.splits)

text \<open>If every iteration on an admitted sample from a state satisfying \<open>I\<close> completes and
  re-establishes \<open>I\<close>, the loop completes on every input of admitted samples.\<close>

lemma act_loop_total:
  assumes step: "\<And>st line. I st \<Longrightarrow> P line \<Longrightarrow>
      \<exists>rs st'. act_step f hu pdu st line = (rs, Inr st') \<and> I st' \<and> step_post st line rs st'"
    and "I st" and "list_all P data"
  shows "\<exists>rs st'. act_loop f hu pdu st data = (rs, Inr st') \<and> I st' \<and> loop_post st data rs st'"
  using \<open>I st\<close> \<open>list_all P data\<close>
proof (induction data arbitrary: st)
  case Nil
  then show ?case by (simp add: loop_post_def)
next
  case (Cons line data)
  from Cons.prems have "P line" and rest: "list_all P data" by simp_all
  from step [OF Cons.prems(1) \<open>P line\<close>] obtain rs1 st1 where
    s1: "act_step f hu pdu st line = (rs1, Inr st1)" and i1: "I st1" and p1: "step_post st line rs1 st1"
    by blast
  from Cons.IH [OF i1 rest] obtain rs2 st2 where
    s2: "act_loop f hu pdu st1 data = (rs2, Inr st2)" and i2: "I st2" and p2: "loop_post st1 data rs2 st2"
    by blast
  from p1 p2 have "loop_post st (line # data) (rs1 @ rs2) st2" by (rule loop_post_Cons)
  with s1 s2 i2 show ?case by simp
qed

text \<open>If an iteration can fail only with \<open>OverflowError\<close>, so can the loop.\<close>

lemma act_loop_cases:
  assumes step: "\<And>st line. I st \<Longrightarrow>
      act_step f hu pdu st line = ([], Inl OverflowError) \<or>
      (\<exists>rs st'. act_step f hu pdu st line = (rs, Inr st') \<and> I st' \<and> step_post st line rs st')"
    and "I st"
  shows "(\<exists>rs. act_loop f hu pdu st data = (rs, Inl OverflowError)) \<or>
         (\<exists>rs st'. act_loop f hu pdu st data = (rs, Inr st') \<and> I st' \<and> loop_post st data rs st')"
  using \<open>I st\<close>
proof (induction data arbitrary: st)
  case Nil
  then show ?case by (simp add: loop_post_def)
next
  case (Cons line data)
  from step [OF Cons.prems] show ?case
  proof
    assume "act_step f hu pdu st line = ([], Inl OverflowError)"
    then show ?thesis by simp
  next
    assume "\<exists>rs st'. act_step f hu pdu st line = (rs, Inr st') \<and> I st' \<and> step_post st line rs st'"
    then obtain rs1 st1 where
      s1: "act_step f hu pdu st line = (rs1, Inr st1)" and i1: "I st1"
      and p1: "step_post st line rs1 st1"
      by blast
    from Cons.IH [OF i1] show ?thesis
    proof
      assume "\<exists>rs. act_loop f hu pdu st1 data = (rs, Inl OverflowError)"
      then show ?thesis using s1 by auto
    next
      assume "\<exists>rs st'. act_loop f hu pdu st1 data = (rs, Inr st') \<and> I st' \<and> loop_post st1 data rs st'"
      then obtain rs2 st2 where
        s2: "act_loop f hu pdu st1 data = (rs2, Inr st2)" and i2: "I st2"
        and p2: "loop_post st1 data rs2 st2"
        by blast
      from p1 p2 have "loop_post st (line # data) (rs1 @ rs2) st2" by (rule loop_post_Cons)
      with s1 s2 i2 show ?thesis by simp
    qed
  qed
qed

text \<open>Without a day boundary nothing is rendered: if the iterations that are not at a boundary
  complete, so does the loop on an input that crosses none, and it yields no record.\<close>

lemma act_loop_quiet:
  assumes step: "\<And>st line. I st \<Longrightarrow> \<not> is_boundary (prev_date st) (fst line) \<Longrightarrow>
      \<exists>st'. act_step f hu pdu st line = ([], Inr st') \<and> I st' \<and> step_post st line [] st'"
    and "I st" and "crossings (prev_date st) (map fst data) = 0"
  shows "\<exists>st'. act_loop f hu pdu st data = ([], Inr st') \<and> I st' \<and> loop_post st data [] st'"
  using assms(2,3)
proof (induction data arbitrary: st)
  case Nil
  then show ?case by (simp add: loop_post_def)
next
  case (Cons line data)
  from Cons.prems(2) have nb: "\<not> is_boundary (prev_date st) (fst line)"
    and c: "crossings (Some (fst line)) (map fst data) = 0"
    by (simp_all split: if_splits)
  from step [OF Cons.prems(1) nb] obtain st1 where
    s1: "act_step f hu pdu st line = ([], Inr st1)" and i1: "I st1"
    and p1: "step_post st line [] st1"
    by blast
  from p1 have "prev_date st1 = Some (fst line)" by (simp add: step_post_def)
  with c have "crossings (prev_date st1) (map fst data) = 0" by simp
  from Cons.IH [OF i1 this] obtain st2 where
    s2: "act_loop f hu pdu st1 data = ([], Inr st2)" and i2: "I st2"
    and p2: "loop_post st1 data [] st2"
    by blast
  from p1 p2 have "loop_post st (line # data) ([] @ []) st2" by (rule loop_post_Cons)
  with s1 s2 i2 show ?case by simp
qed

section \<open>The trend render never fails once a sample is current\<close>

lemma change_ok: "curr_val st = Some v \<Longrightarrow> \<exists>c. change st = Inr c"
  by (simp add: change_def split: option.splits)

lemma direction_ok: "curr_val st = Some v \<Longrightarrow> \<exists>c. direction st = Inr c"
  using change_ok [of st v] by (auto simp: direction_def and_then_def split: option.splits)

lemma high_since_start_ok:
  "curr_val st = Some v \<Longrightarrow> \<exists>h hi. high_since_start st = Inr (h, st\<lparr>max_val := hi\<rparr>)"
proof (cases "max_val st")
  case None
  then show ?thesis by (auto simp: high_since_start_def)
next
  case (Some m)
  assume v: "curr_val st = Some v"
  have "st = st\<lparr>max_val := Some m\<rparr>" using Some by simp
  then have "\<not> m < v \<Longrightarrow> \<exists>hi. st = st\<lparr>max_val := hi\<rparr>" by blast
  then show ?thesis using Some v by (auto simp: high_since_start_def)
qed

lemma low_since_start_ok:
  "curr_val st = Some v \<Longrightarrow> \<exists>l lo. low_since_start st = Inr (l, st\<lparr>min_val := lo\<rparr>)"
proof (cases "min_val st")
  case None
  then show ?thesis by (auto simp: low_since_start_def)
next
  case (Some m)
  assume v: "curr_val st = Some v"
  have "st = st\<lparr>min_val := Some m\<rparr>" using Some by simp
  then have "\<not> v < m \<Longrightarrow> \<exists>lo. st = st\<lparr>min_val := lo\<rparr>" by blast
  then show ?thesis using Some v by (auto simp: low_since_start_def)
qed

text \<open>Schema1: the render succeeds whenever a current sample is set, and touches only the
  running extremes.\<close>

lemma Schema1_output_format_ok:
  assumes d: "curr_date st = Some d" and v: "curr_val st = Some v"
  shows "\<exists>r lo hi. Schema1_output_format st = Inr (r, st\<lparr>min_val := lo, max_val := hi\<rparr>)"
proof -
  obtain c where c: "change st = Inr c"
    using change_ok [OF v] by blast
  obtain dir where dir: "direction st = Inr dir"
    using direction_ok [OF v] by blast
  obtain h hi where h: "high_since_start st = Inr (h, st\<lparr>max_val := hi\<rparr>)"
    using high_since_start_ok [OF v] by blast
  have "curr_val (st\<lparr>max_val := hi\<rparr>) = Some v" using v by simp
  from low_since_start_ok [OF this]
  obtain l lo where l: "low_since_start (st\<lparr>max_val := hi\<rparr>) = Inr (l, st\<lparr>max_val := hi, min_val := lo\<rparr>)"
    by blast
  have "st\<lparr>max_val := hi, min_val := lo\<rparr> = st\<lparr>min_val := lo, max_val := hi\<rparr>" by simp
  with c dir h l d v have "\<exists>r. Schema1_output_format st = Inr (r, st\<lparr>min_val := lo, max_val := hi\<rparr>)"
    by (simp add: Schema1_output_format_def and_then_def day_of_week_def)
  then show ?thesis by blast
qed

lemma Schema1_step:
  "\<exists>rs st'. act_step Schema1_output_format hourly_update post_daily_update st line = (rs, Inr st') \<and>
      True \<and> step_post st line rs st'"
proof -
  let ?st0 = "st\<lparr>curr_date := Some (fst line), curr_val := Some (snd line)\<rparr>"
  have "\<exists>r lo hi. Schema1_output_format ?st0 = Inr (r, ?st0\<lparr>min_val := lo, max_val := hi\<rparr>)"
    by (rule Schema1_output_format_ok) simp_all
  then obtain r lo hi where r: "Schema1_output_format ?st0 = Inr (r, ?st0\<lparr>min_val := lo, max_val := hi\<rparr>)"
    by blast
  show ?thesis
    by (simp add: act_step_def new_day_current r hourly_update_def post_daily_update_def step_post_def)
qed

section \<open>The dispersion render fails only when the statistics overflow\<close>

lemma map_Some_the: "None \<notin> set vs \<Longrightarrow> vs = map Some (map the vs)"
  by (induction vs) auto

lemma floats_ok: "None \<notin> set vs \<Longrightarrow> floats vs = Inr (map the vs)"
  using floats_map_Some [of "map the vs"] map_Some_the [of vs] by simp

lemma prefix_outcome_cases:
  "prefix_outcome xs = Inl OverflowError \<or> (\<exists>b. prefix_outcome xs = Inr b)"
  using to_double_cases [of "sqrt (sample_variance xs)"]
  by (auto simp: prefix_outcome_def stdev_def and_then_def Let_def)

lemma prefix_outcome_bounded:
  assumes "\<forall>x \<in> set xs. \<bar>x\<bar> \<le> price_bound" and "2 \<le> length xs"
  shows "\<exists>b. prefix_outcome xs = Inr b"
  using bounded_statistics(2) [OF assms]
  by (simp add: prefix_outcome_def and_then_def Let_def)

lemma volatility_loop_Cons:
  "volatility_loop vs (i # is) =
     (if length (take i vs) < 2 then volatility_loop vs is
      else and_then (floats (take i vs)) (\<lambda>xs.
        and_then (prefix_outcome xs) (\<lambda>hit.
          if hit then Inr True else volatility_loop vs is)))"
  by (cases "floats (take i vs)")
    (auto simp: Let_def prefix_outcome_def and_then_def split: sum.splits)

lemma volatility_loop_cases:
  assumes "None \<notin> set vs"
  shows "volatility_loop vs is = Inl OverflowError \<or> (\<exists>b. volatility_loop vs is = Inr b)"
proof (induction "is")
  case Nil
  show ?case by auto
next
  case (Cons i "is")
  have "None \<notin> set (take i vs)"
    using assms by (auto dest: in_set_takeD)
  then have f: "floats (take i vs) = Inr (map the (take i vs))"
    by (rule floats_ok)
  show ?case
  proof (cases "length (take i vs) < 2")
    case True
    with Cons.IH show ?thesis unfolding volatility_loop_Cons by simp
  next
    case False
    from prefix_outcome_cases [of "map the (take i vs)"] show ?thesis
    proof
      assume "prefix_outcome (map the (take i vs)) = Inl OverflowError"
      with False show ?thesis unfolding volatility_loop_Cons f by (simp add: and_then_def)
    next
      assume "\<exists>b. prefix_outcome (map the (take i vs)) = Inr b"
      then obtain b where "prefix_outcome (map the (take i vs)) = Inr b" by blast
      with False Cons.IH show ?thesis
        unfolding volatility_loop_Cons f by (cases b) (auto simp: and_then_def)
    qed
  qed
qed

lemma volatility_loop_ok:
  assumes n: "None \<notin> set vs" and b: "list_all (\<lambda>v. \<bar>the v\<bar> \<le> price_bound) vs"
  shows "\<exists>b. volatility_loop vs is = Inr b"
proof (induction "is")
  case Nil
  show ?case by auto
next
  case (Cons i "is")
  have "None \<notin> set (take i vs)"
    using n by (auto dest: in_set_takeD)
  then have f: "floats (take i vs) = Inr (map the (take i vs))"
    by (rule floats_ok)
  have bt: "\<forall>x \<in> set (map the (take i vs)). \<bar>x\<bar> \<le> price_bound"
    using b by (auto simp: list_all_iff dest: in_set_takeD)
  show ?case
  proof (cases "length (take i vs) < 2")
    case True
    with Cons.IH show ?thesis unfolding volatility_loop_Cons by simp
  next
    case False
    then have "2 \<le> length (map the (take i vs))" by (simp add: not_less)
    from prefix_outcome_bounded [OF bt this] obtain b where
      "prefix_outcome (map the (take i vs)) = Inr b" by blast
    with False Cons.IH show ?thesis
      unfolding volatility_loop_Cons f by (cases b) (auto simp: and_then_def)
  qed
qed

text \<open>Before the first hourly update of a day the list is empty and no statistics are taken.\<close>

lemma Schema2_output_format_empty:
  assumes "curr_date st = Some d" and "curr_val st = Some v" and "vals st = []"
  shows "Schema2_output_format st =
     Inr ([(''date'', JStr (strftime_iso d)),
           (''price'', JStr (format_2f v)),
           (''dailyAverage'', JNum v),
           (''dailyVariance'', JNum 0),
           (''volatilityalert'', JBool False)], st)"
  using assms
  by (simp add: Schema2_output_format_def and_then_def daily_average_def daily_variance_def
      volatility_alert_def json_opt_def)

lemma Schema2_output_format_cases:
  assumes d: "curr_date st = Some d" and v: "curr_val st = Some v" and n: "None \<notin> set (vals st)"
  shows "Schema2_output_format st = Inl OverflowError \<or> (\<exists>r. Schema2_output_format st = Inr (r, st))"
proof -
  have f: "floats (vals st) = Inr (map the (vals st))"
    using n by (rule floats_ok)
  have a: "\<exists>m. daily_average st = Inr m"
    by (simp add: daily_average_def f and_then_def)
  have dv: "daily_variance st = Inl OverflowError \<or> (\<exists>x. daily_variance st = Inr x)"
    using to_double_cases [of "sample_variance (map the (vals st))"]
    by (auto simp: daily_variance_def f and_then_def variance_def)
  have va: "volatility_alert st = Inl OverflowError \<or> (\<exists>b. volatility_alert st = Inr b)"
    unfolding volatility_alert_def using n by (rule volatility_loop_cases)
  from a dv va show ?thesis
    using d v by (auto simp: Schema2_output_format_def and_then_def)
qed

lemma Schema2_output_format_ok:
  assumes d: "curr_date st = Some d" and v: "curr_val st = Some v" and n: "None \<notin> set (vals st)"
    and b: "list_all (\<lambda>v. \<bar>the v\<bar> \<le> price_bound) (vals st)"
  shows "\<exists>r. Schema2_output_format st = Inr (r, st)"
proof -
  have f: "floats (vals st) = Inr (map the (vals st))"
    using n by (rule floats_ok)
  have a: "\<exists>m. daily_average st = Inr m"
    by (simp add: daily_average_def f and_then_def)
  have bt: "\<forall>x \<in> set (map the (vals st)). \<bar>x\<bar> \<le> price_bound"
    using b by (auto simp: list_all_iff)
  have dv: "\<exists>x. daily_variance st = Inr x"
  proof (cases "length (vals st) < 2")
    case True
    then show ?thesis by (simp add: daily_variance_def)
  next
    case False
    then have "2 \<le> length (map the (vals st))" by simp
    from bounded_statistics(1) [OF bt this] False show ?thesis
      by (simp add: daily_variance_def f and_then_def)
  qed
  have va: "\<exists>b. volatility_alert st = Inr b"
    unfolding volatility_alert_def using n b by (rule volatility_loop_ok)
  from a dv va show ?thesis
    using d v by (auto simp: Schema2_output_format_def and_then_def)
qed

lemma Schema2_step_quiet:
  assumes "Schema2_inv st" and "\<not> is_boundary (prev_date st) (fst line)"
  shows "\<exists>st'. act_step Schema2_output_format Schema2_hourly_update Schema2_post_daily_update st line
        = ([], Inr st') \<and> Schema2_inv st' \<and> step_post st line [] st'"
  using assms
  by (simp add: act_step_def new_day_current hourly_update_def step_post_def
      Schema2_inv_def Schema2_hourly_update_def)

lemma Schema2_step_cases:
  assumes "Schema2_inv st"
  shows "act_step Schema2_output_format Schema2_hourly_update Schema2_post_daily_update st line
           = ([], Inl OverflowError) \<or>
         (\<exists>rs st'. act_step Schema2_output_format Schema2_hourly_update Schema2_post_daily_update st line
           = (rs, Inr st') \<and> Schema2_inv st' \<and> step_post st line rs st')"
proof -
  let ?st0 = "st\<lparr>curr_date := Some (fst line), curr_val := Some (snd line)\<rparr>"
  have "Schema2_output_format ?st0 = Inl OverflowError \<or> (\<exists>r. Schema2_output_format ?st0 = Inr (r, ?st0))"
    using assms by (intro Schema2_output_format_cases) (simp_all add: Schema2_inv_def)
  then show ?thesis
  proof
    assume e: "Schema2_output_format ?st0 = Inl OverflowError"
    show ?thesis
    proof (cases "is_boundary (prev_date st) (fst line)")
      case True
      then show ?thesis by (simp add: act_step_def new_day_current e)
    next
      case False
      with Schema2_step_quiet [OF assms] show ?thesis by blast
    qed
  next
    assume "\<exists>r. Schema2_output_format ?st0 = Inr (r, ?st0)"
    then obtain r where r: "Schema2_output_format ?st0 = Inr (r, ?st0)" by blast
    show ?thesis
      using assms
      by (simp add: act_step_def new_day_current r hourly_update_def post_daily_update_def
          step_post_def Schema2_inv_def Schema2_hourly_update_def Schema2_post_daily_update_def)
  qed
qed

lemma Schema2_step_bounded:
  assumes "Schema2_bounded st" and "\<bar>snd line\<bar> \<le> price_bound"
  shows "\<exists>rs st'. act_step Schema2_output_format Schema2_hourly_update Schema2_post_daily_update st line
        = (rs, Inr st') \<and> Schema2_bounded st' \<and> step_post st line rs st'"
proof -
  let ?st0 = "st\<lparr>curr_date := Some (fst line), curr_val := Some (snd line)\<rparr>"
  have "\<exists>r. Schema2_output_format ?st0 = Inr (r, ?st0)"
    using assms(1) by (intro Schema2_output_format_ok) (simp_all add: Schema2_bounded_def Schema2_inv_def)
  then obtain r where r: "Schema2_output_format ?st0 = Inr (r, ?st0)"
    by blast
  show ?thesis
    using assms
    by (simp add: act_step_def new_day_current r hourly_update_def post_daily_update_def
        step_post_def Schema2_bounded_def Schema2_inv_def Schema2_hourly_update_def
        Schema2_post_daily_update_def)
qed

section \<open>Counting the day boundaries\<close>

lemma crossings_Some:
  "Suc (crossings (Some q) ds) = length (remdups_adj (day q # map day ds))"
  by (induction ds arbitrary: q) (simp_all add: is_boundary_def)

lemma crossings_None: "crossings None ds = length (remdups_adj (map day ds))"
  using crossings_Some by (cases ds) (simp_all add: is_boundary_def)

lemma sorted_distinct_remdups_adj:
  fixes xs :: "'a::linorder list"
  shows "sorted xs \<Longrightarrow> distinct (remdups_adj xs)"
proof (induction xs rule: remdups_adj.induct)
  case (3 x y xs)
  then show ?case by (auto simp: order.strict_iff_order)
qed simp_all

lemma sorted_card_eq_length_remdups_adj:
  fixes xs :: "'a::linorder list"
  assumes "sorted xs"
  shows "card (set xs) = length (remdups_adj xs)"
proof -
  have "card (set (remdups_adj xs)) = length (remdups_adj xs)"
    using assms by (intro distinct_card sorted_distinct_remdups_adj)
  then show ?thesis by simp
qed

lemma day_number_tells_remdups_adj:
  "day_number_tells ds \<Longrightarrow>
     length (remdups_adj (map day ds)) = length (remdups_adj (map date_key ds))"
  by (induction ds rule: day_number_tells.induct) (auto simp: date_key_def)

lemma datetime_key_le_date_key:
  "datetime_key a \<le> datetime_key b \<Longrightarrow> date_key a \<le> date_key b"
  by (auto simp: datetime_key_def less_eq_prod_simp)

lemma ascending_dates: "ascending data \<Longrightarrow> sorted (map date_key (map fst data))"
proof -
  assume "ascending data"
  then have "sorted_wrt (\<lambda>a b. datetime_key (fst a) \<le> datetime_key (fst b)) data"
    by (simp add: ascending_def sorted_map)
  then have "sorted_wrt (\<lambda>a b. date_key (fst a) \<le> date_key (fst b)) data"
    by (rule sorted_wrt_mono_rel [rotated]) (rule datetime_key_le_date_key)
  then show ?thesis by (simp add: sorted_map comp_def)
qed

lemma crossings_calendar_days:
  assumes "ascending data" and "day_number_tells (map fst data)"
  shows "crossings None (map fst data) = calendar_days data"
proof -
  have "crossings None (map fst data) = length (remdups_adj (map date_key (map fst data)))"
    using day_number_tells_remdups_adj [OF assms(2)] by (simp add: crossings_None)
  also have "\<dots> = card (set (map date_key (map fst data)))"
    by (rule sorted_card_eq_length_remdups_adj [symmetric]) (rule ascending_dates [OF assms(1)])
  finally show ?thesis by (simp add: calendar_days_def comp_def)
qed

lemma map_constant: "\<forall>x \<in> set xs. f x = c \<Longrightarrow> map f xs = replicate (length xs) c"
  by (induction xs) simp_all

lemma crossings_single_day:
  assumes "ds \<noteq> []" and "\<forall>d \<in> set ds. date_key d = date_key (hd ds)"
  shows "crossings None ds = 1"
proof -
  have "\<forall>d \<in> set ds. day d = day (hd ds)"
    using assms(2) by (simp add: date_key_def)
  then have "map day ds = replicate (length ds) (day (hd ds))"
    by (rule map_constant)
  then show ?thesis using assms(1) by (simp add: crossings_None remdups_adj_replicate)
qed

section \<open>act on a non-empty input\<close>

lemma Schema1_loop:
  "\<exists>rs st'. act_loop Schema1_output_format hourly_update post_daily_update st data = (rs, Inr st') \<and>
      loop_post st data rs st'"
proof -
  have "list_all (\<lambda>_. True) data" by (simp add: list_all_iff)
  with act_loop_total [of "\<lambda>_. True" "\<lambda>_. True" Schema1_output_format hourly_update
      post_daily_update st data] Schema1_step
  show ?thesis by blast
qed

lemma Schema2_inv_init: "Schema2_inv Schema2_init"
  by (simp add: Schema2_inv_def Schema2_init_def)

lemma Schema2_bounded_init: "Schema2_bounded Schema2_init"
  by (simp add: Schema2_bounded_def Schema2_inv_def Schema2_init_def)

text \<open>The dispersion loop either completes or stops with \<open>OverflowError\<close>.\<close>

lemma Schema2_loop_cases:
  assumes "Schema2_inv st"
  shows "(\<exists>rs. act_loop Schema2_output_format Schema2_hourly_update Schema2_post_daily_update st data
            = (rs, Inl OverflowError)) \<or>
         (\<exists>rs st'. act_loop Schema2_output_format Schema2_hourly_update Schema2_post_daily_update st data
            = (rs, Inr st') \<and> Schema2_inv st' \<and> loop_post st data rs st')"
  using Schema2_step_cases assms by (rule act_loop_cases)

lemma Schema2_loop_completed:
  assumes "Schema2_inv st"
    and "act_loop Schema2_output_format Schema2_hourly_update Schema2_post_daily_update st data
            = (rs, Inr st')"
  shows "Schema2_inv st' \<and> loop_post st data rs st'"
  using Schema2_loop_cases [OF assms(1), of data] assms(2) by auto

lemma Schema2_loop_quiet:
  assumes "Schema2_inv st" and "crossings (prev_date st) (map fst data) = 0"
  shows "\<exists>st'. act_loop Schema2_output_format Schema2_hourly_update Schema2_post_daily_update st data
        = ([], Inr st') \<and> Schema2_inv st' \<and> loop_post st data [] st'"
  using Schema2_step_quiet assms by (rule act_loop_quiet)

text \<open>With prices of bounded magnitude it completes.\<close>

lemma Schema2_loop_bounded:
  assumes "Schema2_bounded st" and "bounded_prices data"
  shows "\<exists>rs st'. act_loop Schema2_output_format Schema2_hourly_update Schema2_post_daily_update st data
        = (rs, Inr st') \<and> Schema2_bounded st' \<and> loop_post st data rs st'"
  using Schema2_step_bounded assms(1) assms(2) [unfolded bounded_prices_def]
  by (rule act_loop_total)

lemma Schema1_act_total:
  assumes "data \<noteq> []"
  shows "\<exists>rs st r st'.
      act_loop Schema1_output_format hourly_update post_daily_update Schema1_init data = (rs, Inr st) \<and>
      loop_post Schema1_init data rs st \<and>
      Schema1_output_format st = Inr (r, st') \<and>
      Schema1_act data = (rs @ [r], Inr st')"
proof -
  obtain rs st where
    l: "act_loop Schema1_output_format hourly_update post_daily_update Schema1_init data = (rs, Inr st)"
    and p: "loop_post Schema1_init data rs st"
    using Schema1_loop by blast
  from p assms have "curr_date st = Some (fst (last data))" "curr_val st = Some (snd (last data))"
    by (simp_all add: loop_post_def)
  from Schema1_output_format_ok [OF this] obtain r st' where
    r: "Schema1_output_format st = Inr (r, st')" by blast
  have "Schema1_act data = (rs @ [r], Inr st')"
    using l r by (simp add: Schema1_act_def act_def hourly_update_def)
  with l p r show ?thesis by blast
qed

text \<open>The trailing render of the dispersion strategy, once the loop has completed on a
  non-empty input: it returns a record or raises \<open>OverflowError\<close>.\<close>

lemma Schema2_trailing_cases:
  assumes "data \<noteq> []"
    and l: "act_loop Schema2_output_format Schema2_hourly_update Schema2_post_daily_update Schema2_init
        data = (rs, Inr st)"
  shows "Schema2_act data = (rs, Inl OverflowError) \<or>
         (\<exists>r. Schema2_output_format (Schema2_hourly_update st) = Inr (r, Schema2_hourly_update st) \<and>
              Schema2_act data = (rs @ [r], Inr (Schema2_hourly_update st)))"
proof -
  from Schema2_loop_completed [OF Schema2_inv_init l]
  have i: "Schema2_inv st" and p: "loop_post Schema2_init data rs st" by simp_all
  let ?st = "Schema2_hourly_update st"
  from p assms(1) have "curr_date st = Some (fst (last data))" "curr_val st = Some (snd (last data))"
    by (simp_all add: loop_post_def)
  then have "curr_date ?st = Some (fst (last data))" "curr_val ?st = Some (snd (last data))"
    "None \<notin> set (vals ?st)"
    using i by (simp_all add: Schema2_hourly_update_def hourly_update_def Schema2_inv_def)
  from Schema2_output_format_cases [OF this] show ?thesis
    using l by (auto simp: Schema2_act_def act_def)
qed

lemma Schema2_act_total:
  assumes "data \<noteq> []" and "bounded_prices data"
  shows "\<exists>rs st r.
      act_loop Schema2_output_format Schema2_hourly_update Schema2_post_daily_update Schema2_init data
        = (rs, Inr st) \<and>
      loop_post Schema2_init data rs st \<and> Schema2_inv st \<and>
      Schema2_output_format (Schema2_hourly_update st) = Inr (r, Schema2_hourly_update st) \<and>
      Schema2_act data = (rs @ [r], Inr (Schema2_hourly_update st))"
proof -
  obtain rs st where
    l: "act_loop Schema2_output_format Schema2_hourly_update Schema2_post_daily_update Schema2_init data
        = (rs, Inr st)"
    and b: "Schema2_bounded st" and p: "loop_post Schema2_init data rs st"
    using Schema2_loop_bounded [OF Schema2_bounded_init assms(2)] by blast
  let ?st = "Schema2_hourly_update st"
  from p assms(1) have c: "curr_date st = Some (fst (last data))" "curr_val st = Some (snd (last data))"
    by (simp_all add: loop_post_def)
  have "last data \<in> set data" using assms(1) by simp
  with assms(2) have lb: "\<bar>snd (last data)\<bar> \<le> price_bound"
    by (simp add: bounded_prices_def list_all_iff)
  have "curr_date ?st = Some (fst (last data))" "curr_val ?st = Some (snd (last data))"
    "None \<notin> set (vals ?st)" "list_all (\<lambda>v. \<bar>the v\<bar> \<le> price_bound) (vals ?st)"
    using c b lb
    by (simp_all add: Schema2_hourly_update_def hourly_update_def Schema2_bounded_def Schema2_inv_def)
  from Schema2_output_format_ok [OF this] obtain r where
    r: "Schema2_output_format ?st = Inr (r, ?st)" by blast
  have "Schema2_act data = (rs @ [r], Inr ?st)"
    using l r by (simp add: Schema2_act_def act_def)
  with l p b r show ?thesis by (auto simp: Schema2_bounded_def)
qed

lemma act_record_count:
  assumes "data \<noteq> []"
  shows "length (fst (Schema1_act data)) = crossings None (map fst data) + 1"
    and "bounded_prices data \<Longrightarrow>
         length (fst (Schema2_act data)) = crossings None (map fst data) + 1"
proof -
  from Schema1_act_total [OF assms] show "length (fst (Schema1_act data)) = crossings None (map fst data) + 1"
    by (auto simp: loop_post_def Schema1_init_def)
  assume "bounded_prices data"
  from Schema2_act_total [OF assms this]
  show "length (fst (Schema2_act data)) = crossings None (map fst data) + 1"
    by (auto simp: loop_post_def Schema2_init_def)
qed

text \<open>When consecutive samples on different dates also differ in the day of the month, an
  ascending input spanning \<open>D\<close> calendar days yields \<open>D + 1\<close> records.\<close>

lemma act_emits_days_plus_one:
  assumes "data \<noteq> []" and "ascending data" and "day_number_tells (map fst data)"
  shows "length (fst (Schema1_act data)) = calendar_days data + 1"
    and "bounded_prices data \<Longrightarrow> length (fst (Schema2_act data)) = calendar_days data + 1"
  using act_record_count [OF assms(1)] crossings_calendar_days [OF assms(2,3)] by simp_all

section \<open>Evaluating the program on concrete inputs\<close>

lemmas render_eval =
  strftime_iso_def zero_pad_def digits.simps strftime_A_def weekday_def toordinal_def
  days_before_year_def days_before_month_def is_leap_def format_2f_def round_half_even_def
  and_then_def json_opt_def jan15_09_def jan15_10_def jan16_09_def feb15_09_def

lemmas Schema1_eval =
  Schema1_output_format_def day_of_week_def change_def direction_def high_since_start_def
  low_since_start_def Schema1_init_def to_float_ok round_double_numeral

lemmas Schema2_eval =
  Schema2_output_format_def daily_average_def daily_variance_def volatility_alert_def
  Schema2_hourly_update_def Schema2_post_daily_update_def Schema2_init_def floats_def
  mean_def exact_mean_def variance_def sample_variance_def upt_rec round_double_numeral to_double_ok

lemmas act_eval =
  act_def act_step_def new_day_def hourly_update_def post_daily_update_def

lemmas order_eval = ascending_def calendar_days_def datetime_key_def date_key_def less_eq_prod_simp

section \<open>How many records act emits\<close>

lemma Schema1_first_step:
  "act_step Schema1_output_format hourly_update post_daily_update Schema1_init line =
     ([[(''date'', JStr (strftime_iso (fst line))),
        (''price'', JStr (format_2f (snd line))),
        (''direction'', JNull),
        (''change'', JNull),
        (''dayOfWeek'', JStr (strftime_A (fst line))),
        (''highSinceStart'', JNull),
        (''lowSinceStart'', JNull)]],
      Inr \<lparr>curr_val = Some (snd line), curr_date = Some (fst line), prev_val = Some (snd line),
            prev_date = Some (fst line), prev_day_val = Some (snd line),
            min_val = Some (snd line), max_val = Some (snd line)\<rparr>)"
  by (simp add: act_step_def new_day_def Schema1_eval and_then_def json_opt_def hourly_update_def
      post_daily_update_def)

lemma calendar_days_1D:
  assumes "calendar_days data = 1"
  shows "data \<noteq> []" and "\<forall>d \<in> set (map fst data). date_key d = date_key (hd (map fst data))"
proof -
  show ne: "data \<noteq> []" using assms by (auto simp: calendar_days_def)
  from assms have "card ((\<lambda>line. date_key (fst line)) ` set data) = 1"
    by (simp add: calendar_days_def)
  then obtain c where c: "(\<lambda>line. date_key (fst line)) ` set data = {c}"
    by (rule card_1_singletonE)
  then have "\<forall>line \<in> set data. date_key (fst line) = c" by blast
  moreover from ne have "hd data \<in> set data" by simp
  ultimately show "\<forall>d \<in> set (map fst data). date_key d = date_key (hd (map fst data))"
    using ne by (simp add: hd_map)
qed

lemma single_day_crossings: "calendar_days data = 1 \<Longrightarrow> crossings None (map fst data) = 1"
  using calendar_days_1D [of data] by (intro crossings_single_day) simp_all

lemma Schema2_first_step:
  "act_step Schema2_output_format Schema2_hourly_update Schema2_post_daily_update Schema2_init line =
     ([[(''date'', JStr (strftime_iso (fst line))),
        (''price'', JStr (format_2f (snd line))),
        (''dailyAverage'', JNum (snd line)),
        (''dailyVariance'', JNum 0),
        (''volatilityalert'', JBool False)]],
      Inr \<lparr>curr_val = Some (snd line), curr_date = Some (fst line), prev_val = Some (snd line),
            prev_date = Some (fst line), prev_day_val = Some (snd line),
            vals = [Some (snd line)]\<rparr>)"
proof -
  let ?st0 = "Schema2_init\<lparr>curr_date := Some (fst line), curr_val := Some (snd line)\<rparr>"
  have "Schema2_output_format ?st0 =
     Inr ([(''date'', JStr (strftime_iso (fst line))),
           (''price'', JStr (format_2f (snd line))),
           (''dailyAverage'', JNum (snd line)),
           (''dailyVariance'', JNum 0),
           (''volatilityalert'', JBool False)], ?st0)"
    by (rule Schema2_output_format_empty) (simp_all add: Schema2_init_def)
  then show ?thesis
    by (simp add: act_step_def new_day_def Schema2_init_def Schema2_hourly_update_def
        Schema2_post_daily_update_def hourly_update_def post_daily_update_def)
qed

text \<open>On a single-day input the dispersion loop renders once, at the first sample, where no
  statistics are taken, and completes.\<close>

lemma Schema2_single_day_loop:
  assumes "calendar_days data = 1"
  shows "\<exists>q0 st.
      act_loop Schema2_output_format Schema2_hourly_update Schema2_post_daily_update Schema2_init data
        = ([q0], Inr st)"
proof -
  have ne: "data \<noteq> []" using assms by (rule calendar_days_1D)
  then obtain line rest where d: "data = line # rest" by (cases data) auto
  have "crossings None (map fst data) = 1" using assms by (rule single_day_crossings)
  then have c: "crossings (Some (fst line)) (map fst rest) = 0"
    by (simp add: d is_boundary_def)
  let ?st1 = "\<lparr>curr_val = Some (snd line), curr_date = Some (fst line), prev_val = Some (snd line),
            prev_date = Some (fst line), prev_day_val = Some (snd line),
            vals = [Some (snd line)]\<rparr>"
  have "Schema2_inv ?st1" by (simp add: Schema2_inv_def)
  moreover from c have "crossings (prev_date ?st1) (map fst rest) = 0" by simp
  ultimately obtain st2 where
    "act_loop Schema2_output_format Schema2_hourly_update Schema2_post_daily_update ?st1 rest
        = ([], Inr st2)"
    using Schema2_loop_quiet by blast
  then show ?thesis
    unfolding d by (simp add: Schema2_first_step)
qed

text \<open>
  Claim C1, as stated, fails: an input confined to one calendar day does not yield a single
  record. The first sample has no predecessor, so \<open>new_day\<close> holds and a record is rendered
  before the trailing one. On the two samples of 2021-01-15 at 09:00 and 10:00 the trend
  strategy yields two records, the second with direction and change present.
\<close>

theorem single_day_not_one_record:
  "ascending [(jan15_09, 100), (jan15_10, 110)] \<and>
   calendar_days [(jan15_09, 100), (jan15_10, 110)] = 1 \<and>
   fst (Schema1_act [(jan15_09, 100), (jan15_10, 110)]) =
     [[(''date'', JStr ''2021-01-15T09:00:00''), (''price'', JStr ''100.00''),
       (''direction'', JNull), (''change'', JNull), (''dayOfWeek'', JStr ''Friday''),
       (''highSinceStart'', JNull), (''lowSinceStart'', JNull)],
      [(''date'', JStr ''2021-01-15T10:00:00''), (''price'', JStr ''110.00''),
       (''direction'', JStr ''up''), (''change'', JStr ''10.00''), (''dayOfWeek'', JStr ''Friday''),
       (''highSinceStart'', JBool True), (''lowSinceStart'', JBool False)]] \<and>
   length (fst (Schema2_act [(jan15_09, 100), (jan15_10, 110)])) = 2"
proof -
  have "ascending [(jan15_09, 100), (jan15_10, 110)]"
    by (simp add: order_eval jan15_09_def jan15_10_def)
  moreover have "calendar_days [(jan15_09, 100), (jan15_10, 110)] = 1"
    by (simp add: order_eval jan15_09_def jan15_10_def)
  moreover have "fst (Schema1_act [(jan15_09, 100), (jan15_10, 110)]) =
     [[(''date'', JStr ''2021-01-15T09:00:00''), (''price'', JStr ''100.00''),
       (''direction'', JNull), (''change'', JNull), (''dayOfWeek'', JStr ''Friday''),
       (''highSinceStart'', JNull), (''lowSinceStart'', JNull)],
      [(''date'', JStr ''2021-01-15T10:00:00''), (''price'', JStr ''110.00''),
       (''direction'', JStr ''up''), (''change'', JStr ''10.00''), (''dayOfWeek'', JStr ''Friday''),
       (''highSinceStart'', JBool True), (''lowSinceStart'', JBool False)]]"
    by (simp add: Schema1_act_def act_eval Schema1_eval render_eval)
  moreover have "length (fst (Schema2_act [(jan15_09, 100), (jan15_10, 110)])) = 2"
  proof -
    have "bounded_prices [(jan15_09, 100), (jan15_10, 110)]"
      by (simp add: bounded_prices_def price_bound_def)
    then have "length (fst (Schema2_act [(jan15_09, 100), (jan15_10, 110)])) =
        crossings None (map fst [(jan15_09, 100), (jan15_10, 110::real)]) + 1"
      by (intro act_record_count) simp
    then show ?thesis
      by (simp add: is_boundary_def jan15_09_def jan15_10_def)
  qed
  ultimately show ?thesis by blast
qed

text \<open>
  Claim C1, amended. For every input whose timestamps all lie within one calendar day
  (the input is then non-empty; no ordering is needed), act in the trend strategy emits
  exactly two records: one when the first sample arrives and the trailing one; the first of
  them has change, direction, highSinceStart and lowSinceStart null. In the dispersion
  strategy the loop emits the record of the first sample and completes; the trailing render
  then yields the second record, unless \<^verbatim>\<open>statistics.variance\<close> or \<^verbatim>\<open>statistics.stdev\<close> raises
  \<open>OverflowError\<close>, which leaves one record. With prices of at most \<open>2 ^ 500\<close> in magnitude
  they do not raise and there are exactly two records.
\<close>

theorem single_day_emits_two_records:
  assumes "calendar_days data = 1"
  shows "(\<exists>r0 r1 st. Schema1_act data = ([r0, r1], Inr st) \<and>
            map_of r0 ''change'' = Some JNull \<and> map_of r0 ''direction'' = Some JNull \<and>
            map_of r0 ''highSinceStart'' = Some JNull \<and> map_of r0 ''lowSinceStart'' = Some JNull) \<and>
         (\<exists>q0 st.
            act_loop Schema2_output_format Schema2_hourly_update Schema2_post_daily_update Schema2_init
              data = ([q0], Inr st) \<and>
            (Schema2_act data = ([q0], Inl OverflowError) \<or>
             (\<exists>q1 st'. Schema2_act data = ([q0, q1], Inr st')))) \<and>
         (bounded_prices data \<longrightarrow> (\<exists>q0 q1 st. Schema2_act data = ([q0, q1], Inr st)))"
    (is "?trend \<and> ?dispersion \<and> ?bounded")
proof -
  have ne: "data \<noteq> []" using assms by (rule calendar_days_1D)
  have one: "crossings None (map fst data) = 1" using assms by (rule single_day_crossings)
  have ?trend
  proof -
    from Schema1_act_total [OF ne] obtain rs st r st' where
      l: "act_loop Schema1_output_format hourly_update post_daily_update Schema1_init data = (rs, Inr st)"
      and p: "loop_post Schema1_init data rs st" and a: "Schema1_act data = (rs @ [r], Inr st')"
      by blast
    from p one have len: "length rs = 1" by (simp add: loop_post_def Schema1_init_def)
    obtain line rest where d: "data = line # rest" using ne by (cases data) auto
    let ?r0 = "[(''date'', JStr (strftime_iso (fst line))),
        (''price'', JStr (format_2f (snd line))),
        (''direction'', JNull),
        (''change'', JNull),
        (''dayOfWeek'', JStr (strftime_A (fst line))),
        (''highSinceStart'', JNull),
        (''lowSinceStart'', JNull)]"
    from l have "\<exists>rs'. rs = ?r0 # rs'"
      unfolding d by (auto simp: Schema1_first_step split: prod.splits)
    with len have "rs = [?r0]" by auto
    with a have "Schema1_act data = ([?r0, r], Inr st')" by simp
    moreover have "map_of ?r0 ''change'' = Some JNull" "map_of ?r0 ''direction'' = Some JNull"
      "map_of ?r0 ''highSinceStart'' = Some JNull" "map_of ?r0 ''lowSinceStart'' = Some JNull"
      by simp_all
    ultimately show ?thesis by blast
  qed
  moreover
  from Schema2_single_day_loop [OF assms] obtain q0 st where
    l2: "act_loop Schema2_output_format Schema2_hourly_update Schema2_post_daily_update Schema2_init
          data = ([q0], Inr st)"
    by blast
  have ?dispersion
    using Schema2_trailing_cases [OF ne l2] l2 by auto
  moreover have ?bounded
  proof
    assume "bounded_prices data"
    from Schema2_act_total [OF ne this] l2 show "\<exists>q0 q1 st. Schema2_act data = ([q0, q1], Inr st)"
      by auto
  qed
  ultimately show ?thesis by blast
qed

theorem single_day_emits_two_records_witness:
  "calendar_days [(jan15_09, 100), (jan15_10, 110)] = 1 \<and>
   bounded_prices [(jan15_09, 100), (jan15_10, 110)] \<and>
   (\<exists>r0 r1 st. Schema1_act [(jan15_09, 100), (jan15_10, 110)] = ([r0, r1], Inr st) \<and>
      map_of r0 ''change'' = Some JNull \<and> map_of r0 ''direction'' = Some JNull \<and>
      map_of r0 ''highSinceStart'' = Some JNull \<and> map_of r0 ''lowSinceStart'' = Some JNull) \<and>
   (\<exists>q0 q1 st. Schema2_act [(jan15_09, 100), (jan15_10, 110)] = ([q0, q1], Inr st))"
proof -
  have h: "calendar_days [(jan15_09, 100), (jan15_10, 110)] = 1"
    by (simp add: order_eval jan15_09_def jan15_10_def)
  have b: "bounded_prices [(jan15_09, 100), (jan15_10, 110)]"
    by (simp add: bounded_prices_def price_bound_def)
  from single_day_emits_two_records [OF h] h b show ?thesis by blast
qed

text \<open>The exception does occur: after the samples (2021-01-15 09:00, 0.0) and (2021-01-15 10:00,
  \<open>2 ^ 700\<close>) the trailing render takes the variance of 0, \<open>2 ^ 700\<close>, \<open>2 ^ 700\<close>, which is
  a third of \<open>2 ^ 1400\<close>, beyond the range of the doubles.\<close>

lemma variance_overflow: "variance [0, 2 ^ 700, 2 ^ 700] = Inl OverflowError"
proof -
  have v: "sample_variance [0, 2 ^ 700, 2 ^ 700] = 2 ^ 1400 / 3"
    by (simp add: sample_variance_def exact_mean_def power2_eq_square field_simps flip: power_add)
  have "(2::real) ^ 1024 \<le> (2 ^ 1400 / 3) / 2" by simp
  also have "\<dots> \<le> round_double (2 ^ 1400 / 3)" by (rule round_double_lower) simp
  finally have "(2::real) ^ 1024 \<le> \<bar>round_double (2 ^ 1400 / 3)\<bar>" by simp
  then show ?thesis
    by (simp only: variance_def v to_double_def Let_def if_True)
qed

lemma dispersion_overflow:
  "Schema2_act [(jan15_09, 0), (jan15_10, 2 ^ 700)] =
     ([[(''date'', JStr ''2021-01-15T09:00:00''), (''price'', JStr ''0.00''),
        (''dailyAverage'', JNum 0), (''dailyVariance'', JNum 0), (''volatilityalert'', JBool False)]],
      Inl OverflowError)"
proof -
  let ?st = "\<lparr>curr_val = Some (2 ^ 700), curr_date = Some jan15_10, prev_val = Some (2 ^ 700),
          prev_date = Some jan15_10, prev_day_val = Some 0, vals = [Some 0, Some (2 ^ 700 :: real)]\<rparr>"
  have first: "act_step Schema2_output_format Schema2_hourly_update Schema2_post_daily_update
      Schema2_init (jan15_09, 0) =
     ([[(''date'', JStr ''2021-01-15T09:00:00''), (''price'', JStr ''0.00''),
        (''dailyAverage'', JNum 0), (''dailyVariance'', JNum 0), (''volatilityalert'', JBool False)]],
      Inr \<lparr>curr_val = Some 0, curr_date = Some jan15_09, prev_val = Some 0,
            prev_date = Some jan15_09, prev_day_val = Some 0, vals = [Some 0]\<rparr>)"
    by (simp add: Schema2_first_step render_eval)
  have second: "act_step Schema2_output_format Schema2_hourly_update Schema2_post_daily_update
      \<lparr>curr_val = Some 0, curr_date = Some jan15_09, prev_val = Some 0,
            prev_date = Some jan15_09, prev_day_val = Some 0, vals = [Some 0]\<rparr> (jan15_10, 2 ^ 700)
     = ([], Inr ?st)"
    by (simp add: act_step_def new_day_def Schema2_hourly_update_def hourly_update_def
        jan15_09_def jan15_10_def)
  have trailing: "Schema2_output_format (Schema2_hourly_update ?st) = Inl OverflowError"
    using variance_overflow
    by (simp add: Schema2_output_format_def and_then_def daily_average_def daily_variance_def
        Schema2_hourly_update_def hourly_update_def floats_def)
  show ?thesis
    by (simp add: Schema2_act_def act_def first second trailing del: power_numeral)
qed

text \<open>
  Claim C2 says that an ascending input spanning \<open>D\<close> calendar days yields \<open>D + 1\<close> records.
  \<open>new_day\<close> compares the day of the month only, so two consecutive samples a month apart
  (2021-01-15 and 2021-02-15) are not told apart: the input spans two calendar days and
  both strategies emit two records, not three. When consecutive samples on different dates
  also differ in the day of the month, the count is \<open>D + 1\<close> (\<open>act_emits_days_plus_one\<close>; in
  the dispersion strategy, for prices that keep the statistics within the range of the doubles).
\<close>

theorem month_gap_emits_two_records:
  "ascending [(jan15_09, 100), (feb15_09, 110)] \<and>
   calendar_days [(jan15_09, 100), (feb15_09, 110)] = 2 \<and>
   length (fst (Schema1_act [(jan15_09, 100), (feb15_09, 110)])) = 2 \<and>
   length (fst (Schema2_act [(jan15_09, 100), (feb15_09, 110)])) = 2"
proof -
  have "ascending [(jan15_09, 100), (feb15_09, 110)]"
    by (simp add: order_eval jan15_09_def feb15_09_def)
  moreover have "calendar_days [(jan15_09, 100), (feb15_09, 110)] = 2"
    by (simp add: order_eval jan15_09_def feb15_09_def)
  moreover have "length (fst (Schema1_act [(jan15_09, 100), (feb15_09, 110)])) = 2"
    by (simp add: Schema1_act_def act_eval Schema1_eval render_eval)
  moreover have "length (fst (Schema2_act [(jan15_09, 100), (feb15_09, 110)])) = 2"
  proof -
    have "bounded_prices [(jan15_09, 100), (feb15_09, 110)]"
      by (simp add: bounded_prices_def price_bound_def)
    then have "length (fst (Schema2_act [(jan15_09, 100), (feb15_09, 110)])) =
        crossings None (map fst [(jan15_09, 100), (feb15_09, 110::real)]) + 1"
      by (intro act_record_count) simp
    then show ?thesis
      by (simp add: is_boundary_def jan15_09_def feb15_09_def)
  qed
  ultimately show ?thesis by blast
qed

text \<open>
  Claim C3, as stated, fails: on the empty input no record is emitted.
\<close>

theorem empty_input_emits_no_record:
  "fst (Schema1_act []) = [] \<and> fst (Schema2_act []) = []"
  by (simp add: Schema1_act_def Schema2_act_def act_eval Schema1_eval Schema2_eval and_then_def)

text \<open>
  Claim C3, amended. On the empty input act still performs the final hourly update and
  calls the render (first conjunct, for any hooks; for Schema2 the update appends the absent
  current price). The render then raises \<open>AttributeError\<close>, because the current timestamp is
  absent, and no record is emitted, with either strategy.
\<close>

theorem empty_input_render_raises:
  "act f hu pdu st [] = (case f (hu st) of Inl e \<Rightarrow> ([], Inl e) | Inr (r, st') \<Rightarrow> ([r], Inr st')) \<and>
   Schema1_act [] = ([], Inl AttributeError) \<and>
   vals (Schema2_hourly_update Schema2_init) = [None] \<and>
   Schema2_act [] = ([], Inl AttributeError)"
  by (simp add: Schema1_act_def Schema2_act_def act_eval Schema1_eval Schema2_eval and_then_def
      split: sum.splits)

section \<open>The volatility alert\<close>

text \<open>The loop stops at the first selected index whose prefix has at least two elements and
  whose outcome is not a plain false: an exception or a hit.\<close>

lemma volatility_loop_floats:
  "volatility_loop (map Some xs) is =
     (case find (\<lambda>i. 2 \<le> length (take i xs) \<and> prefix_outcome (take i xs) \<noteq> Inr False) is of
        None \<Rightarrow> Inr False
      | Some i \<Rightarrow> prefix_outcome (take i xs))"
proof (induction "is")
  case Nil
  show ?case by simp
next
  case (Cons i "is")
  have f: "floats (take i (map Some xs)) = Inr (take i xs)"
    by (simp add: take_map floats_map_Some)
  have l: "length (take i (map Some xs)) = length (take i xs)"
    by simp
  show ?case
  proof (cases "length (take i xs) < 2")
    case True
    then show ?thesis unfolding volatility_loop_Cons l using Cons.IH by (simp del: length_take)
  next
    case False
    show ?thesis
    proof (cases "prefix_outcome (take i xs)")
      case (Inl e)
      with False show ?thesis
        unfolding volatility_loop_Cons f l by (simp add: and_then_def del: length_take)
    next
      case (Inr b)
      with False Cons.IH show ?thesis
        unfolding volatility_loop_Cons f l by (cases b) (simp_all add: and_then_def del: length_take)
    qed
  qed
qed

lemma volatility_loop_no_raise:
  assumes "list_all (\<lambda>i. length (take i xs) < 2 \<or> (\<exists>b. prefix_outcome (take i xs) = Inr b)) is"
  shows "volatility_loop (map Some xs) is =
     Inr (list_ex (\<lambda>i. 2 \<le> length (take i xs) \<and> prefix_outcome (take i xs) = Inr True) is)"
  using assms
proof (induction "is")
  case Nil
  show ?case by simp
next
  case (Cons i "is")
  have f: "floats (take i (map Some xs)) = Inr (take i xs)"
    by (simp add: take_map floats_map_Some)
  have l: "length (take i (map Some xs)) = length (take i xs)"
    by simp
  from Cons.prems have rest: "list_all (\<lambda>i. length (take i xs) < 2 \<or> (\<exists>b. prefix_outcome (take i xs) = Inr b)) is"
    and here: "length (take i xs) < 2 \<or> (\<exists>b. prefix_outcome (take i xs) = Inr b)"
    by simp_all
  show ?case
  proof (cases "length (take i xs) < 2")
    case True
    then show ?thesis
      unfolding volatility_loop_Cons l using Cons.IH [OF rest] by (simp del: length_take)
  next
    case False
    with here obtain b where "prefix_outcome (take i xs) = Inr b" by blast
    with False Cons.IH [OF rest] show ?thesis
      unfolding volatility_loop_Cons f l by (cases b) (simp_all add: and_then_def del: length_take)
  qed
qed

text \<open>The prefixes of the examples, where every value involved is a small integer.\<close>

lemma prefix_outcome_0_0: "prefix_outcome [0, 0] = Inr False"
  by (simp add: prefix_outcome_def stdev_def mean_def exact_mean_def sample_variance_def and_then_def)

lemma prefix_outcome_0_0_0: "prefix_outcome [0, 0, 0] = Inr False"
  by (simp add: prefix_outcome_def stdev_def mean_def exact_mean_def sample_variance_def and_then_def)

lemma prefix_outcome_0_0_0_4: "prefix_outcome [0, 0, 0, 4] = Inr True"
proof -
  have v: "sample_variance [0, 0, 0, 4] = 4"
    by (simp add: sample_variance_def exact_mean_def power2_eq_square)
  have s: "stdev [0, 0, 0, 4] = Inr 2"
    by (simp add: stdev_def v to_double_ok round_double_numeral)
  have m: "mean [0, 0, 0, 4] = 1"
    by (simp add: mean_def exact_mean_def)
  show ?thesis
    by (simp add: prefix_outcome_def s m and_then_def to_float_ok round_double_numeral
        round_double_neg_numeral)
qed

text \<open>
  Claim C4, as stated, fails on two counts: the loop runs over \<open>range(len(vals))\<close>, so the
  whole list is never a selected prefix, and the value compared is the last element of the
  prefix, not of the whole list. On \<open>[0, 0, 0, 4, 0, 1000]\<close> the code returns true at the
  prefix \<open>[0, 0, 0, 4]\<close> (mean 1, deviation 2, and 4 is within two deviations of 1), while
  the last element of the whole list, 1000, is within two deviations of the mean of no
  prefix, the whole list included.
\<close>

theorem volatility_alert_not_last_of_all:
  "volatility_alert (Schema2_init\<lparr>vals := map Some [0, 0, 0, 4, 0, 1000]\<rparr>) = Inr True \<and>
   \<not> spec_volatility_alert [0, 0, 0, 4, 0, 1000]"
proof
  show "volatility_alert (Schema2_init\<lparr>vals := map Some [0, 0, 0, 4, 0, 1000]\<rparr>) = Inr True"
    by (simp add: volatility_alert_def Schema2_init_def upt_rec volatility_loop_Cons floats_def
        and_then_def prefix_outcome_0_0 prefix_outcome_0_0_0 prefix_outcome_0_0_0_4
        del: volatility_loop.simps(2))
  show "\<not> spec_volatility_alert [0, 0, 0, 4, 0, 1000]"
    by (simp add: spec_volatility_alert_def upt_rec Let_def abs_less_two_sqrt_iff exact_mean_def
        sample_variance_def power2_eq_square)
qed

text \<open>
  Claim C4, amended. On a list of floats \<open>volatility_alert\<close> goes through the prefixes
  \<open>vals[:i]\<close> for \<open>i\<close> in \<open>range(len(vals))\<close> in order and skips those with fewer than two
  elements. On a prefix \<^verbatim>\<open>statistics.stdev\<close> may raise \<open>OverflowError\<close>; otherwise the prefix
  passes when the last element of that prefix lies strictly within two sample standard
  deviations of the prefix's mean, the deviation and the mean being the floats the
  \<^verbatim>\<open>statistics\<close> functions return, and their difference and the doubling float operations.
  The first prefix that raises or passes decides the call (the exception, or true); if
  there is none the result is false. In particular, when no prefix raises, the result is
  true iff some prefix passes, and false otherwise.
\<close>

theorem volatility_alert_prefixes:
  "volatility_alert (self\<lparr>vals := map Some xs\<rparr>) =
     (case find (\<lambda>i. 2 \<le> length (take i xs) \<and> prefix_outcome (take i xs) \<noteq> Inr False)
             [0 ..< length xs] of
        None \<Rightarrow> Inr False
      | Some i \<Rightarrow> prefix_outcome (take i xs)) \<and>
   (list_all (\<lambda>i. length (take i xs) < 2 \<or> (\<exists>b. prefix_outcome (take i xs) = Inr b))
       [0 ..< length xs] \<longrightarrow>
    volatility_alert (self\<lparr>vals := map Some xs\<rparr>) =
      Inr (list_ex (\<lambda>i. 2 \<le> length (take i xs) \<and> prefix_outcome (take i xs) = Inr True)
             [0 ..< length xs]))"
proof
  show "volatility_alert (self\<lparr>vals := map Some xs\<rparr>) =
     (case find (\<lambda>i. 2 \<le> length (take i xs) \<and> prefix_outcome (take i xs) \<noteq> Inr False)
             [0 ..< length xs] of
        None \<Rightarrow> Inr False
      | Some i \<Rightarrow> prefix_outcome (take i xs))"
    by (simp add: volatility_alert_def volatility_loop_floats del: volatility_loop.simps)
  show "list_all (\<lambda>i. length (take i xs) < 2 \<or> (\<exists>b. prefix_outcome (take i xs) = Inr b))
       [0 ..< length xs] \<longrightarrow>
    volatility_alert (self\<lparr>vals := map Some xs\<rparr>) =
      Inr (list_ex (\<lambda>i. 2 \<le> length (take i xs) \<and> prefix_outcome (take i xs) = Inr True)
             [0 ..< length xs])"
  proof
    assume "list_all (\<lambda>i. length (take i xs) < 2 \<or> (\<exists>b. prefix_outcome (take i xs) = Inr b))
       [0 ..< length xs]"
    then show "volatility_alert (self\<lparr>vals := map Some xs\<rparr>) =
      Inr (list_ex (\<lambda>i. 2 \<le> length (take i xs) \<and> prefix_outcome (take i xs) = Inr True)
             [0 ..< length xs])"
      by (simp add: volatility_alert_def volatility_loop_no_raise del: volatility_loop.simps)
  qed
qed

text \<open>On \<open>[0, 0, 0, 4, 7]\<close> no prefix raises and the prefix \<open>[0, 0, 0, 4]\<close> passes.\<close>

theorem volatility_alert_prefixes_witness:
  "list_all (\<lambda>i. length (take i [0, 0, 0, 4, 7 :: real]) < 2 \<or>
       (\<exists>b. prefix_outcome (take i [0, 0, 0, 4, 7]) = Inr b)) [0 ..< length [0, 0, 0, 4, 7 :: real]] \<and>
   volatility_alert (Schema2_init\<lparr>vals := map Some [0, 0, 0, 4, 7]\<rparr>) = Inr True"
proof -
  have h: "list_all (\<lambda>i. length (take i [0, 0, 0, 4, 7 :: real]) < 2 \<or>
       (\<exists>b. prefix_outcome (take i [0, 0, 0, 4, 7]) = Inr b)) [0 ..< length [0, 0, 0, 4, 7 :: real]]"
    by (auto simp: upt_rec prefix_outcome_0_0 prefix_outcome_0_0_0 prefix_outcome_0_0_0_4)
  have e: "list_ex (\<lambda>i. 2 \<le> length (take i [0, 0, 0, 4, 7 :: real]) \<and>
       prefix_outcome (take i [0, 0, 0, 4, 7]) = Inr True) [0 ..< length [0, 0, 0, 4, 7 :: real]]"
    by (simp add: upt_rec prefix_outcome_0_0 prefix_outcome_0_0_0 prefix_outcome_0_0_0_4)
  from volatility_alert_prefixes [where self = Schema2_init and xs = "[0, 0, 0, 4, 7]"] h
  have "volatility_alert (Schema2_init\<lparr>vals := map Some [0, 0, 0, 4, 7]\<rparr>) =
      Inr (list_ex (\<lambda>i. 2 \<le> length (take i [0, 0, 0, 4, 7 :: real]) \<and>
       prefix_outcome (take i [0, 0, 0, 4, 7]) = Inr True) [0 ..< length [0, 0, 0, 4, 7 :: real]])"
    by blast
  with e have "volatility_alert (Schema2_init\<lparr>vals := map Some [0, 0, 0, 4, 7]\<rparr>) = Inr True"
    by (simp only: simp_thms)
  with h show ?thesis by (rule conjI)
qed

section \<open>The record at a day boundary\<close>

text \<open>
  Claim C5. At a day boundary the record is rendered from the state left by the previous
  samples in which only the current sample has been stored: the render comes before the
  day-reset hook and before the hourly update of the boundary-crossing sample. If the loop
  reaches the state \<open>st\<close> after the samples \<open>pre\<close> and the next sample \<open>line\<close> is a boundary,
  the record emitted is the render of \<open>st\<close> with \<open>curr_date\<close> and \<open>curr_val\<close> set to \<open>line\<close>;
  \<open>post_daily_update\<close>, the start-of-day price and \<open>hourly_update\<close> are applied to the state
  the render returns. (The date and price of that record are those of the new sample.)
\<close>

theorem boundary_record_before_updates:
  assumes "act_loop f hu pdu self pre = (rs, Inr st)"
    and "is_boundary (prev_date st) (fst line)"
    and "f (st\<lparr>curr_date := Some (fst line), curr_val := Some (snd line)\<rparr>) = Inr (r, st')"
  shows "act_loop f hu pdu self (pre @ [line]) =
           (rs @ [r],
            Inr (let s = pdu st'; s = hu (s\<lparr>prev_day_val := curr_val s\<rparr>)
                 in s\<lparr>prev_date := curr_date s, prev_val := curr_val s\<rparr>)) \<and>
         (\<exists>rs' res. act_loop f hu pdu self (pre @ line # post) = (rs @ r # rs', res))"
proof -
  have step: "act_step f hu pdu st line =
           ([r],
            Inr (let s = pdu st'; s = hu (s\<lparr>prev_day_val := curr_val s\<rparr>)
                 in s\<lparr>prev_date := curr_date s, prev_val := curr_val s\<rparr>))"
    using assms(2,3) by (simp add: act_step_def new_day_current Let_def)
  have one: "act_loop f hu pdu self (pre @ [line]) =
           (rs @ [r],
            Inr (let s = pdu st'; s = hu (s\<lparr>prev_day_val := curr_val s\<rparr>)
                 in s\<lparr>prev_date := curr_date s, prev_val := curr_val s\<rparr>))"
    by (simp add: act_loop_append assms(1) step)
  have "\<exists>rs' res. act_loop f hu pdu self (pre @ line # post) = (rs @ r # rs', res)"
    by (simp add: act_loop_append assms(1) step split: prod.splits)
  with one show ?thesis by blast
qed

text \<open>Two samples on 15 January, then one on 16 January, in the dispersion strategy: the
  boundary record averages 100 and 110 and does not count the new price 90.\<close>

lemma Schema2_loop_jan15:
  "act_loop Schema2_output_format Schema2_hourly_update Schema2_post_daily_update Schema2_init
     [(jan15_09, 100), (jan15_10, 110)] =
   ([[(''date'', JStr ''2021-01-15T09:00:00''), (''price'', JStr ''100.00''),
      (''dailyAverage'', JNum 100), (''dailyVariance'', JNum 0), (''volatilityalert'', JBool False)]],
    Inr \<lparr>curr_val = Some 110, curr_date = Some jan15_10, prev_val = Some 110,
          prev_date = Some jan15_10, prev_day_val = Some 100, vals = [Some 100, Some 110]\<rparr>)"
  by (simp add: act_eval Schema2_eval render_eval)

lemma Schema2_render_jan16:
  "Schema2_output_format
     (\<lparr>curr_val = Some 110, curr_date = Some jan15_10, prev_val = Some 110,
       prev_date = Some jan15_10, prev_day_val = Some 100, vals = [Some 100, Some 110]\<rparr>
      \<lparr>curr_date := Some (fst (jan16_09, 90)), curr_val := Some (snd (jan16_09, 90))\<rparr>) =
   Inr ([(''date'', JStr ''2021-01-16T09:00:00''), (''price'', JStr ''90.00''),
         (''dailyAverage'', JNum 105), (''dailyVariance'', JNum 50), (''volatilityalert'', JBool False)],
        \<lparr>curr_val = Some 90, curr_date = Some jan16_09, prev_val = Some 110,
         prev_date = Some jan15_10, prev_day_val = Some 100, vals = [Some 100, Some 110]\<rparr>)"
  by (simp add: Schema2_eval render_eval power2_eq_square)

theorem boundary_record_before_updates_witness:
  "act_loop Schema2_output_format Schema2_hourly_update Schema2_post_daily_update Schema2_init
     ([(jan15_09, 100), (jan15_10, 110)] @ [(jan16_09, 90)]) =
   ([[(''date'', JStr ''2021-01-15T09:00:00''), (''price'', JStr ''100.00''),
      (''dailyAverage'', JNum 100), (''dailyVariance'', JNum 0), (''volatilityalert'', JBool False)],
     [(''date'', JStr ''2021-01-16T09:00:00''), (''price'', JStr ''90.00''),
      (''dailyAverage'', JNum 105), (''dailyVariance'', JNum 50), (''volatilityalert'', JBool False)]],
    Inr \<lparr>curr_val = Some 90, curr_date = Some jan16_09, prev_val = Some 90,
          prev_date = Some jan16_09, prev_day_val = Some 90, vals = [Some 90]\<rparr>)"
proof -
  have b: "is_boundary
      (prev_date \<lparr>curr_val = Some 110, curr_date = Some jan15_10, prev_val = Some 110,
          prev_date = Some jan15_10, prev_day_val = Some 100, vals = [Some 100, Some 110]\<rparr>)
      (fst (jan16_09, 90::real))"
    by (simp add: is_boundary_def jan15_10_def jan16_09_def)
  from boundary_record_before_updates [OF Schema2_loop_jan15 b Schema2_render_jan16, of "[]"]
  show ?thesis
    by (simp add: Schema2_hourly_update_def Schema2_post_daily_update_def hourly_update_def
        post_daily_update_def)
qed

section \<open>The change field of a trend record\<close>

lemma Schema1_loop_one_sample:
  "act_loop Schema1_output_format hourly_update post_daily_update Schema1_init [(jan15_09, 100)] =
   ([[(''date'', JStr ''2021-01-15T09:00:00''), (''price'', JStr ''100.00''),
      (''direction'', JNull), (''change'', JNull), (''dayOfWeek'', JStr ''Friday''),
      (''highSinceStart'', JNull), (''lowSinceStart'', JNull)]],
    Inr \<lparr>curr_val = Some 100, curr_date = Some jan15_09, prev_val = Some 100,
          prev_date = Some jan15_09, prev_day_val = Some 100, min_val = Some 100,
          max_val = Some 100\<rparr>)"
  by (simp add: act_eval Schema1_eval render_eval)

lemma Schema1_change_field:
  assumes "Schema1_output_format st = Inr (r, st')" and "change st = Inr c"
  shows "map_of r ''change'' =
     Some (case c of None \<Rightarrow> JNull | Some x \<Rightarrow> if float_bool x then JStr (float_format_2f x) else JNull)"
  using assms
  by (auto simp: Schema1_output_format_def and_then_def split: sum.splits option.splits prod.splits)

text \<open>
  Claim C6 says that the change field is null exactly when \<open>change()\<close> is absent. The
  render guards the field by the truth value of \<open>self.change\<close>, and zero is false in Python.
  After the single sample (2021-01-15 09:00, 100.0) the trailing render sees a change of 0:
  \<open>direction\<close>, which tests \<open>is None\<close>, is ``same'', and the change field is null, not
  ``0.00''.
\<close>

theorem zero_change_rendered_null:
  "\<exists>rs st r st'.
     act_loop Schema1_output_format hourly_update post_daily_update Schema1_init [(jan15_09, 100)]
       = (rs, Inr st) \<and>
     change st = Inr (Some (Finite 0)) \<and> direction st = Inr (Some ''same'') \<and>
     Schema1_output_format st = Inr (r, st') \<and>
     map_of r ''direction'' = Some (JStr ''same'') \<and> map_of r ''change'' = Some JNull \<and>
     Schema1_act [(jan15_09, 100)] = (rs @ [r], Inr st')"
proof -
  let ?st = "\<lparr>curr_val = Some 100, curr_date = Some jan15_09, prev_val = Some 100,
          prev_date = Some jan15_09, prev_day_val = Some 100, min_val = Some 100,
          max_val = Some (100::real)\<rparr>"
  let ?r = "[(''date'', JStr ''2021-01-15T09:00:00''), (''price'', JStr ''100.00''),
      (''direction'', JStr ''same''), (''change'', JNull), (''dayOfWeek'', JStr ''Friday''),
      (''highSinceStart'', JBool False), (''lowSinceStart'', JBool False)]"
  have c: "change ?st = Inr (Some (Finite 0))"
    by (simp add: change_def)
  have d: "direction ?st = Inr (Some ''same'')"
    by (simp add: direction_def change_def and_then_def)
  have r: "Schema1_output_format ?st = Inr (?r, ?st)"
    by (simp add: Schema1_eval render_eval)
  have a: "Schema1_act [(jan15_09, 100)] =
      ([[(''date'', JStr ''2021-01-15T09:00:00''), (''price'', JStr ''100.00''),
      (''direction'', JNull), (''change'', JNull), (''dayOfWeek'', JStr ''Friday''),
      (''highSinceStart'', JNull), (''lowSinceStart'', JNull)]] @ [?r], Inr ?st)"
    using Schema1_loop_one_sample r
    by (simp add: Schema1_act_def act_def hourly_update_def)
  have m: "map_of ?r ''direction'' = Some (JStr ''same'')" "map_of ?r ''change'' = Some JNull"
    by simp_all
  from Schema1_loop_one_sample c d r m a show ?thesis by blast
qed

section \<open>The trailing update\<close>

lemma Schema2_render_fields:
  assumes "Schema2_output_format st = Inr (r, st')" and "vals st = map Some xs" and "2 \<le> length xs"
  shows "map_of r ''dailyAverage'' = Some (JNum (mean xs)) \<and>
         (\<exists>v. variance xs = Inr v \<and> map_of r ''dailyVariance'' = Some (JNum v))"
proof -
  have da: "daily_average st = Inr (Some (mean xs))"
    using assms(2,3) by (auto simp: daily_average_def floats_map_Some and_then_def)
  have dv: "daily_variance st = variance xs"
    using assms(2,3) by (auto simp: daily_variance_def floats_map_Some and_then_def)
  from assms(1) show ?thesis
    by (auto simp: Schema2_output_format_def and_then_def da dv json_opt_def
        split: sum.splits option.splits)
qed

text \<open>
  Claim C7, as stated, fails: the final record is not emitted unconditionally. On the empty
  input the hourly update is applied (in the dispersion strategy it appends the absent
  current price), but the render raises and act ends without a final record.
\<close>

theorem no_trailing_record_on_empty_input:
  "vals (Schema2_hourly_update Schema2_init) = [None] \<and>
   \<not> (\<exists>rs r st. Schema1_act [] = (rs @ [r], Inr st)) \<and>
   \<not> (\<exists>rs r st. Schema2_act [] = (rs @ [r], Inr st))"
proof -
  have "Schema1_act [] = ([], Inl AttributeError)" "Schema2_act [] = ([], Inl AttributeError)"
    by (simp_all add: Schema1_act_def Schema2_act_def act_eval Schema1_eval Schema2_eval and_then_def)
  moreover have "vals (Schema2_hourly_update Schema2_init) = [None]"
    by (simp add: Schema2_hourly_update_def Schema2_init_def hourly_update_def)
  ultimately show ?thesis by simp
qed

text \<open>
  Claim C7, amended. When the input is exhausted, act applies the hourly update exactly once
  more to the state the loop has reached and then calls the render once; it emits the
  final record if that render returns, and ends with the render's exception otherwise
  (first conjunct, for any hooks). On a non-empty input the trend strategy always emits the
  final record (second conjunct). In the dispersion strategy, on every non-empty input on
  which the loop completes, the collected list ends with the last sample's price, so at the
  trailing render it ends with that price twice; the render then raises \<open>OverflowError\<close>, or
  it returns the final record, whose mean and variance are taken over the list with the
  duplicate (third conjunct). So on a non-empty input the dispersion strategy ends with
  \<open>OverflowError\<close> or with the final record (fourth conjunct), and with prices of at most
  \<open>2 ^ 500\<close> in magnitude it ends with the final record (fifth conjunct).
\<close>

theorem trailing_update_counts_last_sample_twice:
  "act f hu pdu self data =
     (case act_loop f hu pdu self data of
        (rs, Inl e) \<Rightarrow> (rs, Inl e)
      | (rs, Inr st) \<Rightarrow>
          (case f (hu st) of
             Inl e \<Rightarrow> (rs, Inl e)
           | Inr (r, st') \<Rightarrow> (rs @ [r], Inr st'))) \<and>
   (data1 \<noteq> [] \<longrightarrow> (\<exists>rs r st. Schema1_act data1 = (rs @ [r], Inr st))) \<and>
   (data2 \<noteq> [] \<and>
    act_loop Schema2_output_format Schema2_hourly_update Schema2_post_daily_update Schema2_init data2
      = (rs2, Inr st2) \<longrightarrow>
    (\<exists>xs. vals st2 = map Some (xs @ [snd (last data2)]) \<and>
       vals (Schema2_hourly_update st2) = map Some (xs @ [snd (last data2), snd (last data2)]) \<and>
       (Schema2_act data2 = (rs2, Inl OverflowError) \<or>
        (\<exists>r v. Schema2_output_format (Schema2_hourly_update st2) = Inr (r, Schema2_hourly_update st2) \<and>
           Schema2_act data2 = (rs2 @ [r], Inr (Schema2_hourly_update st2)) \<and>
           map_of r ''dailyAverage'' =
             Some (JNum (mean (xs @ [snd (last data2), snd (last data2)]))) \<and>
           variance (xs @ [snd (last data2), snd (last data2)]) = Inr v \<and>
           map_of r ''dailyVariance'' = Some (JNum v))))) \<and>
   (data2 \<noteq> [] \<longrightarrow>
    (\<exists>rs. Schema2_act data2 = (rs, Inl OverflowError)) \<or>
    (\<exists>rs r st. Schema2_act data2 = (rs @ [r], Inr st))) \<and>
   (data2 \<noteq> [] \<and> bounded_prices data2 \<longrightarrow>
    (\<exists>rs r st. Schema2_act data2 = (rs @ [r], Inr st)))"
    (is "?any \<and> ?trend \<and> (?given \<longrightarrow> ?dispersion) \<and> ?either \<and> ?bounded")
proof (intro conjI)
  show ?any
    by (simp add: act_def split: prod.splits sum.splits)
  show ?trend
    using Schema1_act_total [of data1] by blast
  show ?bounded
    using Schema2_act_total [of data2] by blast
  show ?either
  proof
    assume ne: "data2 \<noteq> []"
    from Schema2_loop_cases [OF Schema2_inv_init, of data2]
    show "(\<exists>rs. Schema2_act data2 = (rs, Inl OverflowError)) \<or>
        (\<exists>rs r st. Schema2_act data2 = (rs @ [r], Inr st))"
    proof
      assume "\<exists>rs. act_loop Schema2_output_format Schema2_hourly_update Schema2_post_daily_update
          Schema2_init data2 = (rs, Inl OverflowError)"
      then show ?thesis by (auto simp: Schema2_act_def act_def)
    next
      assume "\<exists>rs st'. act_loop Schema2_output_format Schema2_hourly_update Schema2_post_daily_update
          Schema2_init data2 = (rs, Inr st') \<and> Schema2_inv st' \<and> loop_post Schema2_init data2 rs st'"
      then obtain rs st' where "act_loop Schema2_output_format Schema2_hourly_update
          Schema2_post_daily_update Schema2_init data2 = (rs, Inr st')"
        by blast
      from Schema2_trailing_cases [OF ne this] show ?thesis by blast
    qed
  qed
  show "?given \<longrightarrow> ?dispersion"
  proof
    assume g: ?given
    then have ne: "data2 \<noteq> []"
      and l: "act_loop Schema2_output_format Schema2_hourly_update Schema2_post_daily_update
          Schema2_init data2 = (rs2, Inr st2)"
      by simp_all
    from Schema2_loop_completed [OF Schema2_inv_init l]
    have i: "Schema2_inv st2" and p: "loop_post Schema2_init data2 rs2 st2" by simp_all
    let ?p = "snd (last data2)"
    from p ne have cv: "curr_val st2 = Some ?p" and pd: "prev_date st2 \<noteq> None"
      by (simp_all add: loop_post_def)
    from i pd cv have v0: "vals st2 \<noteq> []" and la: "last (vals st2) = Some ?p"
      and nn: "None \<notin> set (vals st2)"
      by (simp_all add: Schema2_inv_def)
    define xs where "xs = map the (butlast (vals st2))"
    have "None \<notin> set (butlast (vals st2))" using nn by (auto dest: in_set_butlastD)
    then have "butlast (vals st2) = map Some xs"
      unfolding xs_def by (rule map_Some_the)
    with v0 la have v: "vals st2 = map Some (xs @ [?p])"
      using append_butlast_last_id [of "vals st2"] by simp
    then have v2: "vals (Schema2_hourly_update st2) = map Some (xs @ [?p, ?p])"
      using cv by (simp add: Schema2_hourly_update_def hourly_update_def)
    have len: "2 \<le> length (xs @ [?p, ?p])" by simp
    from Schema2_trailing_cases [OF ne l]
    have "Schema2_act data2 = (rs2, Inl OverflowError) \<or>
        (\<exists>r v. Schema2_output_format (Schema2_hourly_update st2) = Inr (r, Schema2_hourly_update st2) \<and>
           Schema2_act data2 = (rs2 @ [r], Inr (Schema2_hourly_update st2)) \<and>
           map_of r ''dailyAverage'' = Some (JNum (mean (xs @ [?p, ?p]))) \<and>
           variance (xs @ [?p, ?p]) = Inr v \<and>
           map_of r ''dailyVariance'' = Some (JNum v))"
    proof
      assume "Schema2_act data2 = (rs2, Inl OverflowError)"
      then show ?thesis by simp
    next
      assume "\<exists>r. Schema2_output_format (Schema2_hourly_update st2) = Inr (r, Schema2_hourly_update st2) \<and>
          Schema2_act data2 = (rs2 @ [r], Inr (Schema2_hourly_update st2))"
      then obtain r where
        r: "Schema2_output_format (Schema2_hourly_update st2) = Inr (r, Schema2_hourly_update st2)"
        and a: "Schema2_act data2 = (rs2 @ [r], Inr (Schema2_hourly_update st2))"
        by blast
      from Schema2_render_fields [OF r v2 len] r a show ?thesis by blast
    qed
    with v v2 show ?dispersion by blast
  qed
qed

text \<open>The samples (2021-01-15 09:00, 100.0) and (2021-01-15 10:00, 110.0): the trailing render
  sees 100, 110, 110, and the final record carries their mean.\<close>

theorem trailing_update_counts_last_sample_twice_witness:
  "[(jan15_09, 100), (jan15_10, 110::real)] \<noteq> [] \<and>
   bounded_prices [(jan15_09, 100), (jan15_10, 110)] \<and>
   act_loop Schema2_output_format Schema2_hourly_update Schema2_post_daily_update Schema2_init
     [(jan15_09, 100), (jan15_10, 110)] =
   ([[(''date'', JStr ''2021-01-15T09:00:00''), (''price'', JStr ''100.00''),
      (''dailyAverage'', JNum 100), (''dailyVariance'', JNum 0), (''volatilityalert'', JBool False)]],
    Inr \<lparr>curr_val = Some 110, curr_date = Some jan15_10, prev_val = Some 110,
          prev_date = Some jan15_10, prev_day_val = Some 100, vals = [Some 100, Some 110]\<rparr>) \<and>
   vals (Schema2_hourly_update
        \<lparr>curr_val = Some 110, curr_date = Some jan15_10, prev_val = Some 110,
          prev_date = Some jan15_10, prev_day_val = Some 100, vals = [Some 100, Some 110]\<rparr>) =
     [Some 100, Some 110, Some 110] \<and>
   (\<exists>rs r st. Schema1_act [(jan15_09, 100), (jan15_10, 110)] = (rs @ [r], Inr st)) \<and>
   (\<exists>r st. Schema2_act [(jan15_09, 100), (jan15_10, 110)] =
      ([[(''date'', JStr ''2021-01-15T09:00:00''), (''price'', JStr ''100.00''),
         (''dailyAverage'', JNum 100), (''dailyVariance'', JNum 0),
         (''volatilityalert'', JBool False)]] @ [r], Inr st) \<and>
      map_of r ''dailyAverage'' = Some (JNum (mean [100, 110, 110])))"
proof -
  let ?D = "[(jan15_09, 100), (jan15_10, 110::real)]"
  let ?RS = "[[(''date'', JStr ''2021-01-15T09:00:00''), (''price'', JStr ''100.00''),
      (''dailyAverage'', JNum 100), (''dailyVariance'', JNum 0), (''volatilityalert'', JBool False)]]"
  let ?ST = "\<lparr>curr_val = Some 110, curr_date = Some jan15_10, prev_val = Some 110,
          prev_date = Some jan15_10, prev_day_val = Some 100, vals = [Some 100, Some (110::real)]\<rparr>"
  note T = trailing_update_counts_last_sample_twice
    [where ?data1.0 = ?D and ?data2.0 = ?D and ?rs2.0 = ?RS and ?st2.0 = ?ST]
  have h: "?D \<noteq> []" by simp
  have b: "bounded_prices ?D" by (simp add: bounded_prices_def price_bound_def)
  have g: "?D \<noteq> [] \<and>
      act_loop Schema2_output_format Schema2_hourly_update Schema2_post_daily_update Schema2_init ?D
        = (?RS, Inr ?ST)"
    using h Schema2_loop_jan15 by (rule conjI)
  have hb: "?D \<noteq> [] \<and> bounded_prices ?D" using h b by (rule conjI)
  from T [THEN conjunct2, THEN conjunct1, THEN mp, OF h]
  have t1: "\<exists>rs r st. Schema1_act ?D = (rs @ [r], Inr st)" .
  from T [THEN conjunct2, THEN conjunct2, THEN conjunct2, THEN conjunct2, THEN mp, OF hb]
  have t2: "\<exists>rs r st. Schema2_act ?D = (rs @ [r], Inr st)" .
  then have no: "Schema2_act ?D \<noteq> (?RS, Inl OverflowError)" by auto
  from T [THEN conjunct2, THEN conjunct2, THEN conjunct1, THEN mp, OF g]
  obtain xs where a: "vals ?ST = map Some (xs @ [snd (last ?D)])"
    and c: "Schema2_act ?D = (?RS, Inl OverflowError) \<or>
        (\<exists>r v. Schema2_output_format (Schema2_hourly_update ?ST) = Inr (r, Schema2_hourly_update ?ST) \<and>
           Schema2_act ?D = (?RS @ [r], Inr (Schema2_hourly_update ?ST)) \<and>
           map_of r ''dailyAverage'' = Some (JNum (mean (xs @ [snd (last ?D), snd (last ?D)]))) \<and>
           variance (xs @ [snd (last ?D), snd (last ?D)]) = Inr v \<and>
           map_of r ''dailyVariance'' = Some (JNum v))"
    by (elim exE conjE)
  from a have "map Some (xs @ [110]) = map Some ([100] @ [110 :: real])" by simp
  then have "xs @ [110] = [100] @ [110 :: real]" by (simp only: inj_map_eq_map inj_Some)
  then have xs: "xs = [100]" by (simp only: append_same_eq)
  from c no obtain r where
    r: "Schema2_act ?D = (?RS @ [r], Inr (Schema2_hourly_update ?ST))"
    and m: "map_of r ''dailyAverage'' = Some (JNum (mean (xs @ [snd (last ?D), snd (last ?D)])))"
    by blast
  from m have m': "map_of r ''dailyAverage'' = Some (JNum (mean [100, 110, 110]))"
    by (simp add: xs)
  from r m' have e: "\<exists>r st. Schema2_act ?D = (?RS @ [r], Inr st) \<and>
      map_of r ''dailyAverage'' = Some (JNum (mean [100, 110, 110]))"
    by blast
  have v: "vals (Schema2_hourly_update ?ST) = [Some 100, Some 110, Some 110]"
    by (simp add: Schema2_hourly_update_def hourly_update_def)
  from h b Schema2_loop_jan15 v t1 e show ?thesis by (intro conjI)
qed

section \<open>The accumulator between samples\<close>

text \<open>
  Claim C8. In the trend strategy the loop completes on every input. In the dispersion
  strategy it completes or stops with \<open>OverflowError\<close> at a day boundary (it completes when
  the prices are at most \<open>2 ^ 500\<close> in magnitude). With either strategy, the state the loop has
  reached after a prefix \<open>pre\<close> of the input (from which the rest of the input is processed)
  has \<open>prev_date\<close> and \<open>prev_val\<close> absent iff no sample has been processed, and
  \<open>prev_day_val\<close> absent iff no day transition has occurred: the first sample is a
  transition, so that is again iff no sample has been processed.
\<close>

theorem accumulator_invariant:
  "(\<exists>rs st.
      act_loop Schema1_output_format hourly_update post_daily_update Schema1_init pre = (rs, Inr st) \<and>
      act_loop Schema1_output_format hourly_update post_daily_update Schema1_init (pre @ post) =
        (case act_loop Schema1_output_format hourly_update post_daily_update st post of
           (rs', res) \<Rightarrow> (rs @ rs', res)) \<and>
      (prev_date st = None) = (pre = []) \<and> (prev_val st = None) = (pre = []) \<and>
      (prev_day_val st = None) = (pre = []) \<and>
      length rs = crossings None (map fst pre) \<and> (rs = []) = (pre = [])) \<and>
   (case act_loop Schema2_output_format Schema2_hourly_update Schema2_post_daily_update Schema2_init
       pre of
      (rs, Inl e) \<Rightarrow> e = OverflowError
    | (rs, Inr st) \<Rightarrow>
        act_loop Schema2_output_format Schema2_hourly_update Schema2_post_daily_update Schema2_init
          (pre @ post) =
          (case act_loop Schema2_output_format Schema2_hourly_update Schema2_post_daily_update st
             post of (rs', res) \<Rightarrow> (rs @ rs', res)) \<and>
        (prev_date st = None) = (pre = []) \<and> (prev_val st = None) = (pre = []) \<and>
        (prev_day_val st = None) = (pre = []) \<and>
        length rs = crossings None (map fst pre) \<and> (rs = []) = (pre = [])) \<and>
   (bounded_prices pre \<longrightarrow>
      (\<exists>rs st.
         act_loop Schema2_output_format Schema2_hourly_update Schema2_post_daily_update Schema2_init
           pre = (rs, Inr st)))"
    (is "?trend \<and> ?dispersion \<and> ?bounded")
proof -
  have c: "(crossings None (map fst pre) = 0) = (pre = [])"
    by (cases pre) (simp_all add: is_boundary_def)
  have ?trend
  proof -
    obtain rs st where
      l: "act_loop Schema1_output_format hourly_update post_daily_update Schema1_init pre = (rs, Inr st)"
      and p: "loop_post Schema1_init pre rs st"
      using Schema1_loop by blast
    from p have n: "length rs = crossings None (map fst pre)"
      by (simp add: loop_post_def Schema1_init_def)
    from p have "(prev_date st = None) = (pre = [])" "(prev_val st = None) = (pre = [])"
      "(prev_day_val st = None) = (pre = [])"
      by (auto simp: loop_post_def Schema1_init_def split: if_splits)
    moreover from n c have "(rs = []) = (pre = [])" by auto
    moreover have "act_loop Schema1_output_format hourly_update post_daily_update Schema1_init (pre @ post) =
          (case act_loop Schema1_output_format hourly_update post_daily_update st post of
             (rs', res) \<Rightarrow> (rs @ rs', res))"
      by (simp add: act_loop_append l)
    ultimately show ?thesis
      using l n by - (rule exI [of _ rs], rule exI [of _ st], simp)
  qed
  moreover have ?dispersion
  proof (cases "act_loop Schema2_output_format Schema2_hourly_update Schema2_post_daily_update
      Schema2_init pre")
    case (Pair rs res)
    show ?thesis
    proof (cases res)
      case (Inl e)
      with Pair Schema2_loop_cases [OF Schema2_inv_init, of pre] show ?thesis by auto
    next
      case (Inr st)
      with Pair have l: "act_loop Schema2_output_format Schema2_hourly_update Schema2_post_daily_update
          Schema2_init pre = (rs, Inr st)"
        by simp
      from Schema2_loop_completed [OF Schema2_inv_init l]
      have p: "loop_post Schema2_init pre rs st" by simp
      from p have n: "length rs = crossings None (map fst pre)"
        by (simp add: loop_post_def Schema2_init_def)
      from p have "(prev_date st = None) = (pre = [])" "(prev_val st = None) = (pre = [])"
        "(prev_day_val st = None) = (pre = [])"
        by (auto simp: loop_post_def Schema2_init_def split: if_splits)
      moreover from n c have "(rs = []) = (pre = [])" by auto
      moreover have "act_loop Schema2_output_format Schema2_hourly_update Schema2_post_daily_update
            Schema2_init (pre @ post) =
            (case act_loop Schema2_output_format Schema2_hourly_update Schema2_post_daily_update st
               post of (rs', res) \<Rightarrow> (rs @ rs', res))"
        by (simp add: act_loop_append l)
      ultimately show ?thesis
        using n by (simp add: l)
    qed
  qed
  moreover have ?bounded
    using Schema2_loop_bounded [OF Schema2_bounded_init, of pre] by blast
  ultimately show ?thesis by blast
qed

text \<open>After the two samples of 15 January, in either strategy: one record has been emitted
  and none of the three fields is absent.\<close>

theorem accumulator_invariant_witness:
  "bounded_prices [(jan15_09, 100), (jan15_10, 110)] \<and>
   (\<exists>rs st.
      act_loop Schema1_output_format hourly_update post_daily_update Schema1_init
        [(jan15_09, 100), (jan15_10, 110)] = (rs, Inr st) \<and>
      prev_date st \<noteq> None \<and> prev_val st \<noteq> None \<and> prev_day_val st \<noteq> None \<and> length rs = 1) \<and>
   (\<exists>rs st.
      act_loop Schema2_output_format Schema2_hourly_update Schema2_post_daily_update Schema2_init
        [(jan15_09, 100), (jan15_10, 110)] = (rs, Inr st) \<and>
      prev_date st \<noteq> None \<and> prev_val st \<noteq> None \<and> prev_day_val st \<noteq> None \<and> length rs = 1)"
proof -
  let ?pre = "[(jan15_09, 100), (jan15_10, 110 :: real)]"
  note T = accumulator_invariant [where pre = ?pre and post = "[]"]
  have b: "bounded_prices ?pre"
    by (simp add: bounded_prices_def price_bound_def)
  have c: "crossings None (map fst ?pre) = 1"
    by (simp add: is_boundary_def jan15_09_def jan15_10_def)
  from T [THEN conjunct1] obtain rs1 st1 where
    l1: "act_loop Schema1_output_format hourly_update post_daily_update Schema1_init ?pre = (rs1, Inr st1)"
    and i1: "(prev_date st1 = None) = (?pre = [])" "(prev_val st1 = None) = (?pre = [])"
      "(prev_day_val st1 = None) = (?pre = [])" "length rs1 = crossings None (map fst ?pre)"
    by (elim exE conjE)
  from i1 c have "prev_date st1 \<noteq> None" "prev_val st1 \<noteq> None" "prev_day_val st1 \<noteq> None"
    "length rs1 = 1"
    by simp_all
  with l1 have trend: "\<exists>rs st.
      act_loop Schema1_output_format hourly_update post_daily_update Schema1_init ?pre = (rs, Inr st) \<and>
      prev_date st \<noteq> None \<and> prev_val st \<noteq> None \<and> prev_day_val st \<noteq> None \<and> length rs = 1"
    by blast
  from T [THEN conjunct2, THEN conjunct2, THEN mp, OF b] obtain rs2 st2 where
    l2: "act_loop Schema2_output_format Schema2_hourly_update Schema2_post_daily_update Schema2_init
        ?pre = (rs2, Inr st2)"
    by (elim exE)
  from T [THEN conjunct2, THEN conjunct1]
  have i2: "(prev_date st2 = None) = (?pre = [])" "(prev_val st2 = None) = (?pre = [])"
      "(prev_day_val st2 = None) = (?pre = [])" "length rs2 = crossings None (map fst ?pre)"
    unfolding l2 by simp_all
  from i2 c have "prev_date st2 \<noteq> None" "prev_val st2 \<noteq> None" "prev_day_val st2 \<noteq> None"
    "length rs2 = 1"
    by simp_all
  with l2 have dispersion: "\<exists>rs st.
      act_loop Schema2_output_format Schema2_hourly_update Schema2_post_daily_update Schema2_init
        ?pre = (rs, Inr st) \<and>
      prev_date st \<noteq> None \<and> prev_val st \<noteq> None \<and> prev_day_val st \<noteq> None \<and> length rs = 1"
    by blast
  from b trend dispersion show ?thesis by (intro conjI)
qed

section \<open>Schema1 renders with side effects\<close>

lemma Schema1_loop_jan15:
  "act_loop Schema1_output_format hourly_update post_daily_update Schema1_init
     [(jan15_09, 100), (jan15_10, 110)] =
   ([[(''date'', JStr ''2021-01-15T09:00:00''), (''price'', JStr ''100.00''),
      (''direction'', JNull), (''change'', JNull), (''dayOfWeek'', JStr ''Friday''),
      (''highSinceStart'', JNull), (''lowSinceStart'', JNull)]],
    Inr \<lparr>curr_val = Some 110, curr_date = Some jan15_10, prev_val = Some 110,
          prev_date = Some jan15_10, prev_day_val = Some 100, min_val = Some 100,
          max_val = Some 100\<rparr>)"
  by (simp add: act_eval Schema1_eval render_eval)

text \<open>
  Claim C9. Rendering in the trend strategy is not idempotent. After the samples
  (2021-01-15 09:00, 100.0) and (2021-01-15 10:00, 110.0) the running maximum is still 100;
  the first render reports a new high and stores 110, and a second render with no sample
  in between reports no new high.
\<close>

theorem Schema1_render_not_idempotent:
  "\<exists>rs st r1 st1 r2 st2.
     act_loop Schema1_output_format hourly_update post_daily_update Schema1_init
       [(jan15_09, 100), (jan15_10, 110)] = (rs, Inr st) \<and>
     Schema1_output_format st = Inr (r1, st1) \<and>
     Schema1_output_format st1 = Inr (r2, st2) \<and>
     r1 \<noteq> r2 \<and>
     map_of r1 ''highSinceStart'' = Some (JBool True) \<and>
     map_of r2 ''highSinceStart'' = Some (JBool False) \<and>
     max_val st = Some 100 \<and> max_val st1 = Some 110"
proof -
  let ?st = "\<lparr>curr_val = Some 110, curr_date = Some jan15_10, prev_val = Some 110,
          prev_date = Some jan15_10, prev_day_val = Some 100, min_val = Some 100,
          max_val = Some (100::real)\<rparr>"
  let ?st1 = "\<lparr>curr_val = Some 110, curr_date = Some jan15_10, prev_val = Some 110,
          prev_date = Some jan15_10, prev_day_val = Some 100, min_val = Some 100,
          max_val = Some (110::real)\<rparr>"
  let ?r1 = "[(''date'', JStr ''2021-01-15T10:00:00''), (''price'', JStr ''110.00''),
       (''direction'', JStr ''up''), (''change'', JStr ''10.00''), (''dayOfWeek'', JStr ''Friday''),
       (''highSinceStart'', JBool True), (''lowSinceStart'', JBool False)]"
  let ?r2 = "[(''date'', JStr ''2021-01-15T10:00:00''), (''price'', JStr ''110.00''),
       (''direction'', JStr ''up''), (''change'', JStr ''10.00''), (''dayOfWeek'', JStr ''Friday''),
       (''highSinceStart'', JBool False), (''lowSinceStart'', JBool False)]"
  have r1: "Schema1_output_format ?st = Inr (?r1, ?st1)"
    by (simp add: Schema1_eval render_eval)
  have r2: "Schema1_output_format ?st1 = Inr (?r2, ?st1)"
    by (simp add: Schema1_eval render_eval)
  have ne: "?r1 \<noteq> ?r2" by simp
  have m: "map_of ?r1 ''highSinceStart'' = Some (JBool True)"
    "map_of ?r2 ''highSinceStart'' = Some (JBool False)"
    by simp_all
  have x: "max_val ?st = Some 100" "max_val ?st1 = Some 110" by simp_all
  from Schema1_loop_jan15 r1 r2 ne m x show ?thesis by blast
qed

section \<open>Schema2 renders without side effects\<close>



end
